theory Spec2Isabelle
  imports Complex_Main "HOL-Library.Word"
begin

section \<open>Kyverno artifact watcher: a shallow embedding of \<open>main.go\<close>\<close>

text \<open>
  Go strings are byte strings and are modelled as \<open>string\<close> (a list of bytes). Errors
  are values: a function of the source that returns \<open>(T, error)\<close> returns
  \<open>error + T\<close> here, and one that returns \<open>error\<close> alone returns \<open>error option\<close>
  (\<open>None\<close> for \<open>nil\<close>). \<open>fmt.Errorf("...: %w", err)\<close> is \<open>Wrapped\<close>.
\<close>

datatype error = Err string | Wrapped string error

subsection \<open>Strings\<close>

text \<open>\<open>strings.Split(s, sep)\<close> for a one-byte separator: always at least one part.\<close>

fun split_on :: "char \<Rightarrow> string \<Rightarrow> string list" where
  "split_on c [] = [[]]"
| "split_on c (x # xs) =
     (if x = c then [] # split_on c xs
      else (case split_on c xs of
              [] \<Rightarrow> [[x]]
            | p # ps \<Rightarrow> (x # p) # ps))"

text \<open>\<open>fmt.Sprintf("%d", n)\<close>: decimal digits, with a leading minus sign below zero.\<close>

definition digit_char :: "nat \<Rightarrow> char" where
  "digit_char d = char_of (48 + d)"

fun show_nat :: "nat \<Rightarrow> string" where
  "show_nat n = (if n < 10 then [digit_char n] else show_nat (n div 10) @ [digit_char (n mod 10)])"

declare show_nat.simps [simp del]

definition show_int :: "int \<Rightarrow> string" where
  "show_int i = (if i < 0 then CHR ''-'' # show_nat (nat (- i)) else show_nat (nat i))"

text \<open>
  White space as \<open>unicode.IsSpace\<close> knows it, on the UTF-8 bytes of the string: the six
  ASCII characters, U+0085 and U+00A0 (two bytes each), and U+1680, U+2000 to U+200A,
  U+2028, U+2029, U+202F, U+205F and U+3000 (three bytes each).
\<close>

definition ascii_space :: "char \<Rightarrow> bool" where
  "ascii_space c \<longleftrightarrow> c = CHR 0x09 \<or> c = CHR 0x0A \<or> c = CHR 0x0B \<or> c = CHR 0x0C \<or> c = CHR 0x0D \<or> c = CHR 0x20"

definition space2 :: "char \<Rightarrow> char \<Rightarrow> bool" where
  "space2 a b \<longleftrightarrow> a = CHR 0xC2 \<and> (b = CHR 0x85 \<or> b = CHR 0xA0)"

definition space3 :: "char \<Rightarrow> char \<Rightarrow> char \<Rightarrow> bool" where
  "space3 a b c \<longleftrightarrow>
     (a = CHR 0xE1 \<and> b = CHR 0x9A \<and> c = CHR 0x80) \<or>
     (a = CHR 0xE2 \<and> b = CHR 0x80 \<and>
        ((0x80 \<le> (of_char c :: nat) \<and> (of_char c :: nat) \<le> 0x8A) \<or>
         c = CHR 0xA8 \<or> c = CHR 0xA9 \<or> c = CHR 0xAF)) \<or>
     (a = CHR 0xE2 \<and> b = CHR 0x81 \<and> c = CHR 0x9F) \<or>
     (a = CHR 0xE3 \<and> b = CHR 0x80 \<and> c = CHR 0x80)"

text \<open>
  The number of bytes of the white-space character a string starts with (0 when it
  starts with none), and the same for the character a string ends with, read on the
  reversed string.
\<close>

fun space_width :: "string \<Rightarrow> nat" where
  "space_width [] = 0"
| "space_width [a] = (if ascii_space a then 1 else 0)"
| "space_width [a, b] = (if ascii_space a then 1 else if space2 a b then 2 else 0)"
| "space_width (a # b # c # _) =
     (if ascii_space a then 1 else if space2 a b then 2 else if space3 a b c then 3 else 0)"

fun space_width_rev :: "string \<Rightarrow> nat" where
  "space_width_rev [] = 0"
| "space_width_rev [a] = (if ascii_space a then 1 else 0)"
| "space_width_rev [a, b] = (if ascii_space a then 1 else if space2 b a then 2 else 0)"
| "space_width_rev (a # b # c # _) =
     (if ascii_space a then 1 else if space2 b a then 2 else if space3 c b a then 3 else 0)"

function trim_left :: "string \<Rightarrow> string" where
  "trim_left s = (if space_width s = 0 then s else trim_left (drop (space_width s) s))"
  by pat_completeness auto
termination
proof (relation "measure length")
  show "wf (measure length)" by simp
next
  fix s :: string
  assume "space_width s \<noteq> 0"
  moreover have "space_width s \<le> length s"
    by (induction s rule: space_width.induct) auto
  ultimately show "(drop (space_width s) s, s) \<in> measure length" by simp
qed

function trim_left_rev :: "string \<Rightarrow> string" where
  "trim_left_rev s = (if space_width_rev s = 0 then s else trim_left_rev (drop (space_width_rev s) s))"
  by pat_completeness auto
termination
proof (relation "measure length")
  show "wf (measure length)" by simp
next
  fix s :: string
  assume "space_width_rev s \<noteq> 0"
  moreover have "space_width_rev s \<le> length s"
    by (induction s rule: space_width_rev.induct) auto
  ultimately show "(drop (space_width_rev s) s, s) \<in> measure length" by simp
qed

declare trim_left.simps [simp del] trim_left_rev.simps [simp del]

definition trim_right :: "string \<Rightarrow> string" where
  "trim_right s = rev (trim_left_rev (rev s))"

text \<open>\<open>strings.TrimSpace\<close>: leading white space is cut first, then trailing white space.\<close>

definition TrimSpace :: "string \<Rightarrow> string" where
  "TrimSpace s = trim_right (trim_left s)"

text \<open>
  A string is exactly one white-space character when it is not empty and
  \<open>space_width\<close> covers it; \<open>space_start\<close> holds of the bytes such a character can
  start with.
\<close>

definition is_space_rune :: "string \<Rightarrow> bool" where
  "is_space_rune r \<longleftrightarrow> r \<noteq> [] \<and> space_width r = length r"

definition space_start :: "char \<Rightarrow> bool" where
  "space_start c \<longleftrightarrow> ascii_space c \<or> c = CHR 0xC2 \<or> c = CHR 0xE1 \<or> c = CHR 0xE2 \<or> c = CHR 0xE3"

text \<open>\<open>strings.ReplaceAll\<close> of one byte by another, and \<open>sanitizePath\<close>.\<close>

definition replace_byte :: "char \<Rightarrow> char \<Rightarrow> string \<Rightarrow> string" where
  "replace_byte old new s = map (\<lambda>c. if c = old then new else c) s"

definition sanitizePath :: "string \<Rightarrow> string" where
  "sanitizePath s = replace_byte CHR ''/'' CHR ''_'' (replace_byte CHR '':'' CHR ''_'' s)"

subsection \<open>Environment lookups (\<open>getEnvOrDefault\<close>, \<open>getEnvAsIntOrDefault\<close>)\<close>

text \<open>
  \<open>getEnvFunc\<close> is \<open>os.Getenv\<close>: the value of the variable, or the empty string when it
  is not set. The process environment is a map from names to values.
\<close>

definition getEnvFunc :: "(string \<rightharpoonup> string) \<Rightarrow> string \<Rightarrow> string" where
  "getEnvFunc environ key = (case environ key of None \<Rightarrow> [] | Some v \<Rightarrow> v)"

definition getEnvOrDefault :: "(string \<rightharpoonup> string) \<Rightarrow> string \<Rightarrow> string \<Rightarrow> string" where
  "getEnvOrDefault environ key defaultValue =
     (let v = getEnvFunc environ key in if v \<noteq> [] then v else defaultValue)"

text \<open>
  \<open>fmt.Sscanf(value, "%d", &intVal)\<close> for an \<open>int\<close> of 64 bits. The scanner skips leading
  white space, where a newline is an error; it takes an optional sign and then the
  longest run of decimal digits, which must not be empty; the token goes to
  \<open>strconv.ParseInt(tok, 10, 64)\<close>, which rejects a value outside the \<open>int64\<close> range. Input after the token is not looked at.
\<close>

function skip_space :: "string \<Rightarrow> error + string" where
  "skip_space s =
     (case s of
        [] \<Rightarrow> Inr []
      | c # _ \<Rightarrow>
          if c = CHR 0x0A then Inl (Err ''unexpected newline'')
          else if space_width s = 0 then Inr s
          else skip_space (drop (space_width s) s))"
  by pat_completeness auto
termination
proof (relation "measure length")
  show "wf (measure length)" by simp
next
  fix s :: string and c cs
  assume "s = c # cs" "space_width s \<noteq> 0"
  moreover have "space_width s \<le> length s"
    by (induction s rule: space_width.induct) auto
  ultimately show "(drop (space_width s) s, s) \<in> measure length" by simp
qed

declare skip_space.simps [simp del]

definition is_digit :: "char \<Rightarrow> bool" where
  "is_digit c \<longleftrightarrow> 48 \<le> (of_char c :: nat) \<and> (of_char c :: nat) \<le> 57"

definition digit_val :: "char \<Rightarrow> nat" where
  "digit_val c = of_char c - 48"

definition dec_value :: "string \<Rightarrow> nat" where
  "dec_value ds = foldl (\<lambda>n c. 10 * n + digit_val c) 0 ds"

text \<open>\<open>strconv.ParseInt(tok, 10, 64)\<close>.\<close>

definition ParseInt :: "string \<Rightarrow> error + int" where
  "ParseInt tok =
     (case tok of
        [] \<Rightarrow> Inl (Err ''invalid syntax'')
      | c # cs \<Rightarrow>
          let neg = (c = CHR ''-'');
              ds = (if c = CHR ''+'' \<or> c = CHR ''-'' then cs else tok)
          in if ds = [] \<or> \<not> list_all is_digit ds then Inl (Err ''invalid syntax'')
             else if \<not> neg \<and> dec_value ds \<ge> 2 ^ 63 then Inl (Err ''value out of range'')
             else if neg \<and> dec_value ds > 2 ^ 63 then Inl (Err ''value out of range'')
             else Inr (if neg then - int (dec_value ds) else int (dec_value ds)))"

definition scanInt :: "string \<Rightarrow> error + int" where
  "scanInt s =
     (case s of
        [] \<Rightarrow> Inl (Err ''unexpected EOF'')
      | c # cs \<Rightarrow>
          let sgn = (if c = CHR ''+'' \<or> c = CHR ''-'' then [c] else []);
              rest = (if c = CHR ''+'' \<or> c = CHR ''-'' then cs else s)
          in (case rest of
                [] \<Rightarrow> Inl (Err ''unexpected EOF'')
              | d # _ \<Rightarrow>
                  if \<not> is_digit d then Inl (Err ''expected integer'')
                  else ParseInt (sgn @ takeWhile is_digit rest)))"

definition Sscanf_d :: "string \<Rightarrow> error + int" where
  "Sscanf_d s = (case skip_space s of Inl err \<Rightarrow> Inl err | Inr s' \<Rightarrow> scanInt s')"

definition getEnvAsIntOrDefault :: "(string \<rightharpoonup> string) \<Rightarrow> string \<Rightarrow> int \<Rightarrow> int" where
  "getEnvAsIntOrDefault environ key defaultValue =
     (let v = getEnvFunc environ key
      in if v \<noteq> [] then
           (case Sscanf_d v of Inr intVal \<Rightarrow> intVal | Inl _ \<Rightarrow> defaultValue)
         else defaultValue)"

subsection \<open>Configuration\<close>

record Config =
  GithubToken :: string
  ImageBase :: string
  Owner :: string
  Package :: string
  PackageNormalized :: string
  PollInterval :: int
  GithubAPIOwnerType :: string
  StateDir :: string
  LastFile :: string
  Provider :: string
  Username :: string
  Password :: string

definition demo_config :: Config where
  "demo_config = \<lparr>GithubToken = ''ghp_token'', ImageBase = ''ghcr.io/owner/package'',
     Owner = ''owner'', Package = ''package'', PackageNormalized = ''package'',
     PollInterval = 30, GithubAPIOwnerType = ''users'', StateDir = ''/tmp/kyverno-watcher'',
     LastFile = ''/tmp/kyverno-watcher/last_seen'', Provider = ''github'',
     Username = [], Password = []\<rparr>"

subsection \<open>Version resolver, registry-metadata mode (\<open>getLatestTagOrDigest\<close>)\<close>

text \<open>
  \<open>GitHubPackageVersion\<close>: the id is an \<open>int64\<close>; \<open>UpdatedAt\<close> is a \<open>time.Time\<close>, modelled
  as the instant it denotes (nanoseconds on the time line), so that \<open>a.After(b)\<close> is
  \<open>b < a\<close>; \<open>Tags\<close> is the field \<open>Metadata.Container.Tags\<close>.
\<close>

record GitHubPackageVersion =
  ID :: "64 word"
  UpdatedAt :: int
  Tags :: "string list"

definition After :: "int \<Rightarrow> int \<Rightarrow> bool" where
  "After t u = (u < t)"

text \<open>
  What the HTTP exchange with the package API produced: a request that could not be
  built, a transport failure, a body that could not be read, or a response with its
  status code, the \<open>message\<close> field of an error body, and the body decoded as a list of
  versions (\<open>None\<close> when \<open>json.Unmarshal\<close> rejects it).
\<close>

datatype api_exchange =
    RequestFailed
  | TransportFailed
  | BodyReadFailed
  | Response nat string "GitHubPackageVersion list option"

text \<open>The loop \<open>for _, v := range versions\<close> with its running \<open>latest\<close>.\<close>

fun scan_latest :: "GitHubPackageVersion \<Rightarrow> GitHubPackageVersion list \<Rightarrow> GitHubPackageVersion" where
  "scan_latest latest [] = latest"
| "scan_latest latest (v # vs) =
     scan_latest (if After (UpdatedAt v) (UpdatedAt latest) then v else latest) vs"

definition getLatestTagOrDigest :: "Config \<Rightarrow> api_exchange \<Rightarrow> error + string" where
  "getLatestTagOrDigest config x =
     (case x of
        RequestFailed \<Rightarrow> Inl (Wrapped ''failed to create request'' (Err ''http.NewRequest''))
      | TransportFailed \<Rightarrow> Inl (Wrapped ''failed to make API request'' (Err ''client.Do''))
      | BodyReadFailed \<Rightarrow> Inl (Wrapped ''failed to read response body'' (Err ''io.ReadAll''))
      | Response status message body \<Rightarrow>
          if status \<noteq> 200 then
            (if status = 401 then Inl (Err ''authentication failed (401): invalid or expired GITHUB_TOKEN'')
             else if status = 403 then Inl (Err (''access forbidden (403): token may lack required permissions (read:packages). Message: '' @ message))
             else if status = 404 then
               Inl (Err (''package not found (404): owner='' @ Owner config @ '', package='' @ Package config
                         @ '' (owner type: '' @ GithubAPIOwnerType config
                         @ ''). Verify package exists and token has access''))
             else Inl (Err (''GitHub API returned status '' @ show_nat status @ '': '' @ message)))
          else (case body of
                  None \<Rightarrow> Inl (Wrapped ''failed to parse GitHub API response'' (Err ''json.Unmarshal''))
                | Some versions \<Rightarrow>
                    (case versions of
                       [] \<Rightarrow> Inr ''''
                     | v0 # _ \<Rightarrow>
                         let latest = scan_latest v0 versions
                         in if length (Tags latest) > 0 then Inr (Tags latest ! 0)
                            else Inr (''version-id-'' @ show_int (sint (ID latest))))))"

subsection \<open>Version resolver, direct-reference mode (lines 236 to 240 of \<open>watchLoop\<close>)\<close>

definition artifactoryTag :: "Config \<Rightarrow> error + string" where
  "artifactoryTag config =
     (let parts = split_on CHR '':'' (ImageBase config)
      in if length parts < 2
         then Inl (Err ''IMAGE_BASE for artifactory must include a tag (e.g., registry/path:tag)'')
         else Inr (parts ! (length parts - 1)))"

subsection \<open>Annotating a manifest (\<open>Manifest\<close>, \<open>addLabelsToYAML\<close>)\<close>

text \<open>
  \<open>sigs.k8s.io/yaml\<close> turns the YAML document into a JSON value and decodes that value
  into the \<open>Manifest\<close> struct with \<open>encoding/json\<close>; it encodes the struct as a JSON value
  and prints that as YAML. The model works on the JSON value: a document is a \<open>jvalue\<close>,
  an object is a map from its keys to their values (the order of keys carries no
  meaning), a number is the \<open>float64\<close> that \<open>encoding/json\<close> makes of the literal (a
  literal that is no \<open>float64\<close> is rounded when the text is read, before the model
  starts; from then on the value is carried as it is). A file that is no YAML at all fails before
  this point. Scalars under a field of type string arrive as strings, as the converter
  of the library delivers them. A key belongs to a field when it is the name in the
  field's tag; that \<open>encoding/json\<close> also takes a key that differs from the name only
  in the case of its letters is not modelled.
\<close>

typedef float64 =
  "{x :: real. \<exists>m e :: int. \<bar>m\<bar> < 2 ^ 53 \<and> - 1074 \<le> e \<and> e \<le> 971 \<and>
       x = real_of_int m * 2 powr real_of_int e}"
proof
  show "0 \<in> {x :: real. \<exists>m e :: int. \<bar>m\<bar> < 2 ^ 53 \<and> - 1074 \<le> e \<and> e \<le> 971 \<and>
       x = real_of_int m * 2 powr real_of_int e}"
    by (simp, rule exI [of _ 0], simp, rule exI [of _ 0], simp)
qed

datatype jvalue =
    JNull
  | JBool bool
  | JNum float64
  | JStr string
  | JArr "jvalue list"
  | JObj "string \<Rightarrow> jvalue option"

text \<open>
  The structs. A Go map is \<open>nil\<close> (\<open>None\<close>) or a map; the values of \<open>Spec\<close> are of type
  \<open>interface{}\<close>, which holds the decoded JSON value as it is.
\<close>

record ManifestMetadata =
  Name :: string
  Namespace :: string
  Labels :: "(string \<rightharpoonup> string) option"

record Manifest =
  APIVersion :: string
  Kind :: string
  Metadata :: ManifestMetadata
  Spec :: "(string \<rightharpoonup> jvalue) option"

text \<open>
  Decoding a field: a key that is absent, or \<open>null\<close>, leaves the zero value; a value of
  the wrong shape is an error of \<open>json.Unmarshal\<close>. Keys that no field declares are
  skipped.
\<close>

definition decode_string :: "jvalue option \<Rightarrow> error + string" where
  "decode_string v =
     (case v of
        None \<Rightarrow> Inr []
      | Some JNull \<Rightarrow> Inr []
      | Some (JStr s) \<Rightarrow> Inr s
      | Some _ \<Rightarrow> Inl (Err ''json: cannot unmarshal into Go value of type string''))"

fun str_or_null :: "jvalue \<Rightarrow> bool" where
  "str_or_null (JStr _) = True"
| "str_or_null JNull = True"
| "str_or_null _ = False"

fun label_value :: "jvalue \<Rightarrow> string" where
  "label_value (JStr s) = s"
| "label_value _ = []"

definition decode_labels :: "jvalue option \<Rightarrow> error + (string \<rightharpoonup> string) option" where
  "decode_labels v =
     (case v of
        None \<Rightarrow> Inr None
      | Some JNull \<Rightarrow> Inr None
      | Some (JObj f) \<Rightarrow>
          if (\<forall>k. case f k of None \<Rightarrow> True | Some x \<Rightarrow> str_or_null x)
          then Inr (Some (map_option label_value \<circ> f))
          else Inl (Err ''json: cannot unmarshal into Go value of type string'')
      | Some _ \<Rightarrow> Inl (Err ''json: cannot unmarshal into Go value of type map[string]string''))"

definition decode_spec :: "jvalue option \<Rightarrow> error + (string \<rightharpoonup> jvalue) option" where
  "decode_spec v =
     (case v of
        None \<Rightarrow> Inr None
      | Some JNull \<Rightarrow> Inr None
      | Some (JObj f) \<Rightarrow> Inr (Some f)
      | Some _ \<Rightarrow> Inl (Err ''json: cannot unmarshal into Go value of type map[string]interface {}''))"

definition decode_fields_metadata :: "(string \<rightharpoonup> jvalue) \<Rightarrow> error + ManifestMetadata" where
  "decode_fields_metadata f =
     (case decode_string (f ''name'') of Inl e \<Rightarrow> Inl e | Inr name \<Rightarrow>
      case decode_string (f ''namespace'') of Inl e \<Rightarrow> Inl e | Inr namespace \<Rightarrow>
      case decode_labels (f ''labels'') of Inl e \<Rightarrow> Inl e | Inr labels \<Rightarrow>
        Inr \<lparr>Name = name, Namespace = namespace, Labels = labels\<rparr>)"

definition decode_metadata :: "jvalue option \<Rightarrow> error + ManifestMetadata" where
  "decode_metadata v =
     (case v of
        None \<Rightarrow> Inr \<lparr>Name = [], Namespace = [], Labels = None\<rparr>
      | Some JNull \<Rightarrow> Inr \<lparr>Name = [], Namespace = [], Labels = None\<rparr>
      | Some (JObj f) \<Rightarrow> decode_fields_metadata f
      | Some _ \<Rightarrow> Inl (Err ''json: cannot unmarshal into Go value of type main.ManifestMetadata''))"

definition decode_fields_manifest :: "(string \<rightharpoonup> jvalue) \<Rightarrow> error + Manifest" where
  "decode_fields_manifest f =
     (case decode_string (f ''apiVersion'') of Inl e \<Rightarrow> Inl e | Inr apiVersion \<Rightarrow>
      case decode_string (f ''kind'') of Inl e \<Rightarrow> Inl e | Inr kind \<Rightarrow>
      case decode_metadata (f ''metadata'') of Inl e \<Rightarrow> Inl e | Inr metadata \<Rightarrow>
      case decode_spec (f ''spec'') of Inl e \<Rightarrow> Inl e | Inr spec \<Rightarrow>
        Inr \<lparr>APIVersion = apiVersion, Kind = kind, Metadata = metadata, Spec = spec\<rparr>)"

text \<open>\<open>yaml.Unmarshal(yamlData, &manifest)\<close> into the zero manifest.\<close>

definition Unmarshal :: "jvalue \<Rightarrow> error + Manifest" where
  "Unmarshal doc =
     (case doc of
        JNull \<Rightarrow> Inr \<lparr>APIVersion = [], Kind = [],
                       Metadata = \<lparr>Name = [], Namespace = [], Labels = None\<rparr>, Spec = None\<rparr>
      | JObj f \<Rightarrow> decode_fields_manifest f
      | _ \<Rightarrow> Inl (Err ''json: cannot unmarshal into Go value of type main.Manifest''))"

text \<open>
  \<open>yaml.Marshal(&manifest)\<close>: the declared fields under their lower-case names; a field
  tagged \<open>omitempty\<close> is left out when it is the empty string or a map without entries.
\<close>

definition is_empty_map :: "('k \<rightharpoonup> 'v) option \<Rightarrow> bool" where
  "is_empty_map m = (case m of None \<Rightarrow> True | Some f \<Rightarrow> f = Map.empty)"

definition the_map :: "('k \<rightharpoonup> 'v) option \<Rightarrow> ('k \<rightharpoonup> 'v)" where
  "the_map m = (case m of None \<Rightarrow> Map.empty | Some f \<Rightarrow> f)"

definition encode_metadata :: "ManifestMetadata \<Rightarrow> jvalue" where
  "encode_metadata md =
     JObj ((\<lambda>k. None)
       (''name'' \<mapsto> JStr (Name md),
        ''namespace'' := (if Namespace md = [] then None else Some (JStr (Namespace md))),
        ''labels'' := (if is_empty_map (Labels md) then None
                       else Some (JObj (map_option JStr \<circ> the_map (Labels md))))))"

definition Marshal :: "Manifest \<Rightarrow> jvalue" where
  "Marshal m =
     JObj ((\<lambda>k. None)
       (''apiVersion'' \<mapsto> JStr (APIVersion m),
        ''kind'' \<mapsto> JStr (Kind m),
        ''metadata'' \<mapsto> encode_metadata (Metadata m),
        ''spec'' := (if is_empty_map (Spec m) then None else Some (JObj (the_map (Spec m))))))"

text \<open>
  Lines 487 to 494: the label map is created when it is \<open>nil\<close>, and the two labels are
  set.
\<close>

definition setLabels :: "Manifest \<Rightarrow> string \<Rightarrow> Manifest" where
  "setLabels manifest tag =
     (let labels = (case Labels (Metadata manifest) of None \<Rightarrow> Map.empty | Some l \<Rightarrow> l);
          labels' = labels(''managed-by'' \<mapsto> ''kyverno-watcher'', ''policy-version'' \<mapsto> tag)
      in manifest\<lparr>Metadata := (Metadata manifest)\<lparr>Labels := Some labels'\<rparr>\<rparr>)"

definition addLabelsToYAML :: "jvalue \<Rightarrow> string \<Rightarrow> error + jvalue" where
  "addLabelsToYAML yamlData tag =
     (case Unmarshal yamlData of
        Inl err \<Rightarrow> Inl (Wrapped ''unmarshaling YAML'' err)
      | Inr manifest \<Rightarrow> Inr (Marshal (setLabels manifest tag)))"

definition demo_doc :: jvalue where
  "demo_doc = JObj [''apiVersion'' \<mapsto> JStr ''v1'', ''kind'' \<mapsto> JStr ''ConfigMap'',
      ''metadata'' \<mapsto> JObj [''name'' \<mapsto> JStr ''test'', ''labels'' \<mapsto> JObj [''app'' \<mapsto> JStr ''x''],
                               ''annotations'' \<mapsto> JObj [''note'' \<mapsto> JStr ''kept?'']],
      ''data'' \<mapsto> JObj [''key'' \<mapsto> JStr ''value'']]"

subsection \<open>Finding and applying the manifests (\<open>findYAMLFiles\<close>, \<open>applyManifestsReal\<close>)\<close>

text \<open>
  What \<open>filepath.Walk\<close> can meet below a path: something that is not a directory (a
  regular file, a symbolic link), a directory with its entries in the order
  \<open>readDirNames\<close> returns them (sorted by name), a directory whose entries cannot be
  read, and a path on which \<open>os.Lstat\<close> fails (the root that does not exist, an entry
  that vanished).
\<close>

datatype fsnode =
    File
  | Dir "(string \<times> fsnode) list"
  | UnreadableDir
  | LstatFails

text \<open>\<open>filepath.Ext\<close>: from the last dot of the last path element; empty without a dot.\<close>

definition Ext :: "string \<Rightarrow> string" where
  "Ext path =
     (let elem = takeWhile (\<lambda>c. c \<noteq> CHR ''/'') (rev path)
      in if CHR ''.'' \<in> set elem then CHR ''.'' # rev (takeWhile (\<lambda>c. c \<noteq> CHR ''.'') elem)
         else [])"

text \<open>
  \<open>strings.ToLower\<close> on the ASCII letters; no other character is mapped to a letter of
  \<open>.yaml\<close> or \<open>.yml\<close>.
\<close>

definition lower_byte :: "char \<Rightarrow> char" where
  "lower_byte c =
     (if 65 \<le> (of_char c :: nat) \<and> (of_char c :: nat) \<le> 90 then char_of (of_char c + 32 :: nat) else c)"

definition ToLower :: "string \<Rightarrow> string" where
  "ToLower s = map lower_byte s"

definition is_yaml :: "string \<Rightarrow> bool" where
  "is_yaml path = (let ext = ToLower (Ext path) in ext = ''.yaml'' \<or> ext = ''.yml'')"

text \<open>
  \<open>filepath.Clean\<close>: empty elements and \<open>.\<close> elements go, a \<open>..\<close> element takes the
  element before it with it (at the start it goes when the path is rooted and stays
  otherwise), and the empty result is \<open>.\<close>. \<open>filepath.Join\<close> of two elements joins
  them with a slash, from the first that is not empty on, and cleans the result.
\<close>

fun join_with :: "string \<Rightarrow> string list \<Rightarrow> string" where
  "join_with sep [] = []"
| "join_with sep [e] = e"
| "join_with sep (e # es) = e @ sep @ join_with sep es"

definition clean_elems :: "bool \<Rightarrow> string list \<Rightarrow> string list" where
  "clean_elems rooted elems =
     foldl (\<lambda>kept e.
        if e = [] \<or> e = ''.'' then kept
        else if e = ''..'' then
          (if kept \<noteq> [] \<and> last kept \<noteq> ''..'' then butlast kept
           else if rooted then kept
           else kept @ [e])
        else kept @ [e]) [] elems"

definition Clean :: "string \<Rightarrow> string" where
  "Clean path =
     (case path of
        [] \<Rightarrow> ''.''
      | c # _ \<Rightarrow>
          let rooted = (c = CHR ''/'');
              body = join_with ''/'' (clean_elems rooted (split_on CHR ''/'' path))
          in if rooted then CHR ''/'' # body
             else if body = [] then ''.''
             else body)"

definition Join :: "string \<Rightarrow> string \<Rightarrow> string" where
  "Join dir name =
     (if dir \<noteq> [] then Clean (dir @ ''/'' @ name)
      else if name \<noteq> [] then Clean name
      else [])"

text \<open>
  \<open>filepath.Walk\<close> with the callback of \<open>findYAMLFiles\<close>: the callback returns every
  error it is given, which stops the walk; the paths appended so far are returned with
  the error.
\<close>

fun walk :: "string \<Rightarrow> fsnode \<Rightarrow> string list \<Rightarrow> string list \<times> error option"
  and walk_entries :: "string \<Rightarrow> (string \<times> fsnode) list \<Rightarrow> string list \<Rightarrow> string list \<times> error option"
where
  "walk path File files = (if is_yaml path then files @ [path] else files, None)"
| "walk path LstatFails files = (files, Some (Err ''lstat''))"
| "walk path UnreadableDir files = (files, Some (Err ''readdir''))"
| "walk path (Dir entries) files = walk_entries path entries files"
| "walk_entries path [] files = (files, None)"
| "walk_entries path (entry # entries) files =
     (case walk (Join path (fst entry)) (snd entry) files of
        (files', Some err) \<Rightarrow> (files', Some err)
      | (files', None) \<Rightarrow> walk_entries path entries files')"

definition findYAMLFiles :: "string \<Rightarrow> fsnode \<Rightarrow> string list \<times> error option" where
  "findYAMLFiles dir tree = walk dir tree []"

text \<open>
  The apply step. \<open>kubectl\<close> gives the exit status that \<open>p.ExitStatus()\<close> reports for a
  command line; each command that is run is recorded, as the command line that
  \<open>fmt.Sprintf\<close> builds, with its status, followed by the log line of a failure.
\<close>

datatype apply_event = Ran string int | LoggedFailure string int

fun apply_files :: "(string \<Rightarrow> int) \<Rightarrow> string list \<Rightarrow> apply_event list" where
  "apply_files kubectl [] = []"
| "apply_files kubectl (file # files) =
     (let cmd = ''kubectl apply -f '' @ file;
          exitCode = kubectl cmd
      in (if exitCode \<noteq> 0 then [Ran cmd exitCode, LoggedFailure file exitCode] else [Ran cmd exitCode])
         @ apply_files kubectl files)"

definition applyManifestsReal :: "(string \<Rightarrow> int) \<Rightarrow> string \<Rightarrow> fsnode \<Rightarrow> error option \<times> apply_event list" where
  "applyManifestsReal kubectl dir tree =
     (case findYAMLFiles dir tree of
        (files, Some err) \<Rightarrow> (Some err, [])
      | (files, None) \<Rightarrow>
          if length files = 0 then (None, [])
          else (None, apply_files kubectl files))"

text \<open>The commands that were run, in order.\<close>

fun commands :: "apply_event list \<Rightarrow> string list" where
  "commands [] = []"
| "commands (Ran cmd _ # evs) = cmd # commands evs"
| "commands (LoggedFailure _ _ # evs) = commands evs"

text \<open>
  A tree in which every directory can be listed and every entry can be inspected, and
  the paths of its files in the order of the walk.
\<close>

fun readable :: "fsnode \<Rightarrow> bool"
  and readable_entries :: "(string \<times> fsnode) list \<Rightarrow> bool"
where
  "readable File = True"
| "readable LstatFails = False"
| "readable UnreadableDir = False"
| "readable (Dir entries) = readable_entries entries"
| "readable_entries [] = True"
| "readable_entries (entry # entries) = (readable (snd entry) \<and> readable_entries entries)"

fun all_files :: "string \<Rightarrow> fsnode \<Rightarrow> string list"
  and all_files_entries :: "string \<Rightarrow> (string \<times> fsnode) list \<Rightarrow> string list"
where
  "all_files path File = [path]"
| "all_files path LstatFails = []"
| "all_files path UnreadableDir = []"
| "all_files path (Dir entries) = all_files_entries path entries"
| "all_files_entries path [] = []"
| "all_files_entries path (entry # entries) =
     all_files (Join path (fst entry)) (snd entry) @ all_files_entries path entries"

definition demo_tree :: fsnode where
  "demo_tree = Dir [(''a.yaml'', File), (''b.YML'', File), (''notes.txt'', File),
                    (''sub'', Dir [(''c.yaml'', File), (''d.yaml.bak'', File)])]"

definition demo_kubectl :: "string \<Rightarrow> int" where
  "demo_kubectl cmd = (if cmd = ''kubectl apply -f /tmp/image-v1/a.yaml'' then 1 else 0)"

subsection \<open>Preparing the destination directory (\<open>pullImageToDirReal\<close>)\<close>






subsection \<open>The reconciliation step (\<open>watchLoop\<close>)\<close>

text \<open>
  \<open>pullImageToDirFunc\<close> and \<open>applyManifestsFunc\<close> are function variables of the source;
  \<open>watchLoop\<close> sees only the error they return, so the environment of one iteration
  gives their outcome, together with what the package API answers and whether
  \<open>os.WriteFile\<close> fails (and what it then leaves in the file). The state is the content
  of the files of the state directory; \<open>watchLoop\<close> itself touches it only through
  \<open>os.ReadFile\<close> and \<open>os.WriteFile\<close> on \<open>config.LastFile\<close>, and the pull and the apply
  step work below \<open>/tmp/image-...\<close>, outside the state directory. The calls made
  during the iteration are returned as a list of events, each with the error it
  returned.
\<close>

record environment =
  api :: api_exchange
  pullImageToDirFunc :: "Config \<Rightarrow> string \<Rightarrow> string \<Rightarrow> error option"
  applyManifestsFunc :: "Config \<Rightarrow> string \<Rightarrow> error option"
  writeFileError :: "error option"
  failedWriteLeaves :: "string option"

datatype event =
    Pulled string string "error option"
  | Applied string "error option"
  | Wrote string string "error option"


text \<open>
  Lines 223 to 241: the version to compare, or the early return (\<open>Stop None\<close> is
  \<open>return nil\<close> after "No versions found").
\<close>

datatype resolution = Stop "error option" | Latest string

definition resolveVersion :: "environment \<Rightarrow> Config \<Rightarrow> resolution" where
  "resolveVersion env config =
     (if Provider config = ''github'' then
        (case getLatestTagOrDigest config (api env) of
           Inl err \<Rightarrow> Stop (Some (Wrapped ''could not determine latest tag/digest'' err))
         | Inr latest \<Rightarrow> if latest = [] then Stop None else Latest latest)
      else
        (case artifactoryTag config of
           Inl err \<Rightarrow> Stop (Some err)
         | Inr latest \<Rightarrow> Latest latest))"

text \<open>\<open>os.ReadFile\<close> with its error dropped: an unreadable file reads as no bytes.\<close>

definition readFileOrEmpty :: "(string \<rightharpoonup> string) \<Rightarrow> string \<Rightarrow> string" where
  "readFileOrEmpty files path = (case files path of None \<Rightarrow> [] | Some data \<Rightarrow> data)"

definition writeFile :: "environment \<Rightarrow> (string \<rightharpoonup> string) \<Rightarrow> string \<Rightarrow> string
    \<Rightarrow> error option \<times> (string \<rightharpoonup> string)" where
  "writeFile env files path data =
     (case writeFileError env of
        None \<Rightarrow> (None, files(path \<mapsto> data))
      | Some err \<Rightarrow> (Some err, files(path := failedWriteLeaves env)))"

definition watchLoop :: "environment \<Rightarrow> Config \<Rightarrow> (string \<rightharpoonup> string)
    \<Rightarrow> error option \<times> (string \<rightharpoonup> string) \<times> event list" where
  "watchLoop env config files =
     (case resolveVersion env config of
        Stop r \<Rightarrow> (r, files, [])
      | Latest latest \<Rightarrow>
          let prev = readFileOrEmpty files (LastFile config);
              prevTag = TrimSpace prev
          in if latest \<noteq> prevTag then
               let destDir = ''/tmp/image-'' @ sanitizePath latest
               in (case pullImageToDirFunc env config latest destDir of
                     Some err \<Rightarrow>
                       (Some (Wrapped ''pull failed'' err), files, [Pulled latest destDir (Some err)])
                   | None \<Rightarrow>
                       (case applyManifestsFunc env config destDir of
                          Some err \<Rightarrow>
                            (Some (Wrapped ''apply manifests failed'' err), files,
                             [Pulled latest destDir None, Applied destDir (Some err)])
                        | None \<Rightarrow>
                            (case writeFile env files (LastFile config) latest of
                               (Some err, files') \<Rightarrow>
                                 (Some (Wrapped ''failed to write last file'' err), files',
                                  [Pulled latest destDir None, Applied destDir None,
                                   Wrote (LastFile config) latest (Some err)])
                             | (None, files') \<Rightarrow>
                                 (None, files',
                                  [Pulled latest destDir None, Applied destDir None,
                                   Wrote (LastFile config) latest None]))))
             else (None, files, []))"

definition demo_versions :: "GitHubPackageVersion list" where
  "demo_versions =
     [\<lparr>ID = 11, UpdatedAt = 100, Tags = [''v1.0.0'']\<rparr>,
      \<lparr>ID = 12, UpdatedAt = 300, Tags = [''v1.2.0'', ''latest'']\<rparr>,
      \<lparr>ID = 13, UpdatedAt = 300, Tags = []\<rparr>]"

definition demo_env :: environment where
  "demo_env = \<lparr>api = Response 200 [] (Some demo_versions),
     pullImageToDirFunc = (\<lambda>_ _ _. None), applyManifestsFunc = (\<lambda>_ _. None),
     writeFileError = None, failedWriteLeaves = None\<rparr>"

subsection \<open>Notions of the specification\<close>

text \<open>
  The tag of a reference as the specification describes references (registry host,
  owner and package path, with an optional \<open>:tag\<close> suffix): what follows the last
  colon, unless that text contains a slash, in which case the colon separates a host
  from its port and the reference has no tag.
\<close>

definition reference_tag :: "string \<Rightarrow> string option" where
  "reference_tag ref =
     (let parts = split_on CHR '':'' ref
      in if length parts < 2 then None
         else if CHR ''/'' \<in> set (last parts) then None
         else Some (last parts))"

text \<open>A numeric string: decimal digits, at least one, after an optional minus sign.\<close>

definition numeric_string :: "string \<Rightarrow> bool" where
  "numeric_string s =
     (let ds = (case s of [] \<Rightarrow> [] | c # cs \<Rightarrow> if c = CHR ''-'' then cs else s)
      in ds \<noteq> [] \<and> list_all is_digit ds)"

section \<open>Properties\<close>

subsection \<open>Helper lemmas\<close>

lemma split_on_nonempty: "split_on c s \<noteq> []"
  by (induction s) (auto split: list.splits)

lemma scan_latest_cases:
  "(scan_latest l vs = l \<and> (\<forall>v \<in> set vs. UpdatedAt v \<le> UpdatedAt l)) \<or>
   (\<exists>i < length vs. scan_latest l vs = vs ! i \<and> UpdatedAt l < UpdatedAt (vs ! i) \<and>
        (\<forall>j < length vs. UpdatedAt (vs ! j) \<le> UpdatedAt (vs ! i)) \<and>
        (\<forall>j < i. UpdatedAt (vs ! j) < UpdatedAt (vs ! i)))"
proof (induction vs arbitrary: l)
  case Nil
  then show ?case by simp
next
  case (Cons v vs)
  let ?l' = "if After (UpdatedAt v) (UpdatedAt l) then v else l"
  have step: "scan_latest l (v # vs) = scan_latest ?l' vs" by simp
  have le: "UpdatedAt l \<le> UpdatedAt ?l'" "UpdatedAt v \<le> UpdatedAt ?l'"
    by (auto simp: After_def)
  from Cons.IH [of ?l'] show ?case
  proof (elim disjE conjE exE)
    assume same: "scan_latest ?l' vs = ?l'" and all: "\<forall>x \<in> set vs. UpdatedAt x \<le> UpdatedAt ?l'"
    show ?thesis
    proof (cases "After (UpdatedAt v) (UpdatedAt l)")
      case True
      then have "scan_latest l (v # vs) = (v # vs) ! 0" "UpdatedAt l < UpdatedAt ((v # vs) ! 0)"
        using same by (simp_all add: After_def)
      moreover have "\<forall>j < length (v # vs). UpdatedAt ((v # vs) ! j) \<le> UpdatedAt ((v # vs) ! 0)"
        using all True by (auto simp: nth_Cons split: nat.splits)
      ultimately show ?thesis by (intro disjI2 exI [of _ 0]) simp
    next
      case False
      then have "scan_latest l (v # vs) = l" using same by simp
      moreover have "\<forall>x \<in> set (v # vs). UpdatedAt x \<le> UpdatedAt l"
        using all False by (auto simp: After_def)
      ultimately show ?thesis by blast
    qed
  next
    fix i
    assume i: "i < length vs" and sel: "scan_latest ?l' vs = vs ! i"
      and gt: "UpdatedAt ?l' < UpdatedAt (vs ! i)"
      and mx: "\<forall>j < length vs. UpdatedAt (vs ! j) \<le> UpdatedAt (vs ! i)"
      and fst: "\<forall>j < i. UpdatedAt (vs ! j) < UpdatedAt (vs ! i)"
    have "Suc i < length (v # vs)" using i by simp
    moreover have "scan_latest l (v # vs) = (v # vs) ! Suc i" using sel by simp
    moreover have "UpdatedAt l < UpdatedAt ((v # vs) ! Suc i)" using gt le by simp
    moreover have "\<forall>j < length (v # vs). UpdatedAt ((v # vs) ! j) \<le> UpdatedAt ((v # vs) ! Suc i)"
      using mx gt le by (auto simp: nth_Cons split: nat.splits)
    moreover have "\<forall>j < Suc i. UpdatedAt ((v # vs) ! j) < UpdatedAt ((v # vs) ! Suc i)"
      using fst gt le by (auto simp: nth_Cons split: nat.splits)
    ultimately show ?thesis by blast
  qed
qed

lemma length_split_on: "length (split_on c s) = Suc (count_list s c)"
  by (induction s) (auto split: list.splits simp: split_on_nonempty)

lemma split_on_no_sep: "c \<notin> set s \<Longrightarrow> split_on c s = [s]"
  by (induction s) auto

lemma split_on_sep_two_parts:
  assumes "split_on c (a @ c # t) = p # ps"
  shows "ps \<noteq> []"
proof -
  have "length (split_on c (a @ c # t)) \<ge> 2" by (simp add: length_split_on)
  with assms show ?thesis by auto
qed

lemma last_split_on_append:
  "c \<notin> set t \<Longrightarrow> last (split_on c (a @ c # t)) = t"
proof (induction a)
  case Nil
  then show ?case by (simp add: split_on_no_sep)
next
  case (Cons x a)
  obtain p ps where ps: "split_on c (a @ c # t) = p # ps" "ps \<noteq> []"
    using split_on_sep_two_parts [of c a t] split_on_nonempty [of c "a @ c # t"]
    by (cases "split_on c (a @ c # t)") auto
  with Cons show ?case by simp
qed

lemma artifactoryTag_fails_iff:
  "(\<exists>e. artifactoryTag config = Inl e) \<longleftrightarrow> CHR '':'' \<notin> set (ImageBase config)"
  by (auto simp: artifactoryTag_def Let_def length_split_on count_list_0_iff
      less_Suc_eq_le)

lemma artifactoryTag_tagged:
  assumes "ImageBase config = name @ CHR '':'' # tag" and "CHR '':'' \<notin> set tag"
  shows "artifactoryTag config = Inr tag"
proof -
  let ?parts = "split_on CHR '':'' (ImageBase config)"
  have "count_list (ImageBase config) CHR '':'' \<ge> 1"
    using assms(1) by simp
  then have len: "\<not> length ?parts < 2" by (simp add: length_split_on)
  have "?parts ! (length ?parts - 1) = last ?parts"
    by (simp add: last_conv_nth split_on_nonempty)
  also have "\<dots> = tag" using assms by (simp add: last_split_on_append)
  finally show ?thesis using len by (simp add: artifactoryTag_def Let_def)
qed

subsection \<open>Decimal numerals\<close>

lemma digit_val_digit_char: "d < 10 \<Longrightarrow> digit_val (digit_char d) = d"
  by (simp add: digit_val_def digit_char_def)

lemma is_digit_digit_char: "d < 10 \<Longrightarrow> is_digit (digit_char d)"
  by (simp add: is_digit_def digit_char_def)

lemma dec_value_snoc: "dec_value (ds @ [c]) = 10 * dec_value ds + digit_val c"
  by (simp add: dec_value_def)

lemma show_nat_digits: "show_nat n \<noteq> [] \<and> list_all is_digit (show_nat n)"
proof (induction n rule: show_nat.induct)
  case (1 n)
  show ?case
  proof (cases "n < 10")
    case True
    then show ?thesis by (subst (1 2) show_nat.simps) (simp add: is_digit_digit_char)
  next
    case False
    with 1 have "list_all is_digit (show_nat (n div 10))" by simp
    moreover have "is_digit (digit_char (n mod 10))" by (simp add: is_digit_digit_char)
    ultimately show ?thesis using False by (subst (1 2) show_nat.simps) simp
  qed
qed

lemma dec_value_show_nat: "dec_value (show_nat n) = n"
proof (induction n rule: show_nat.induct)
  case (1 n)
  show ?case
  proof (cases "n < 10")
    case True
    then show ?thesis
      by (subst show_nat.simps) (simp add: dec_value_def digit_val_digit_char)
  next
    case False
    with 1 have "dec_value (show_nat (n div 10)) = n div 10" by simp
    then have "dec_value (show_nat (n div 10) @ [digit_char (n mod 10)]) = 10 * (n div 10) + n mod 10"
      by (simp add: dec_value_snoc digit_val_digit_char)
    with False show ?thesis by (subst show_nat.simps) simp
  qed
qed

lemma show_nat_no_leading_zero: "0 < n \<Longrightarrow> hd (show_nat n) \<noteq> CHR ''0''"
proof (induction n rule: show_nat.induct)
  case (1 n)
  show ?case
  proof (cases "n < 10")
    case True
    with "1.prems" show ?thesis
      by (subst show_nat.simps) (simp add: digit_char_def char_of_eq_iff take_bit_eq_mod)
  next
    case False
    then have "0 < n div 10" by simp
    with 1 False have "hd (show_nat (n div 10)) \<noteq> CHR ''0''" by simp
    moreover have "show_nat (n div 10) \<noteq> []" using show_nat_digits by simp
    ultimately show ?thesis using False by (subst show_nat.simps) simp
  qed
qed

lemma show_nat_zero: "show_nat 0 = ''0''"
  by (subst show_nat.simps) (simp add: digit_char_def char_of_eq_iff)

lemma show_int_decimal:
  "\<exists>ds. ds \<noteq> [] \<and> list_all is_digit ds \<and> (hd ds = CHR ''0'' \<longrightarrow> ds = ''0'') \<and>
        int (dec_value ds) = \<bar>i\<bar> \<and>
        show_int i = (if i < 0 then CHR ''-'' # ds else ds)"
proof -
  let ?ds = "show_nat (nat \<bar>i\<bar>)"
  have "?ds \<noteq> []" "list_all is_digit ?ds" using show_nat_digits by simp_all
  moreover have "hd ?ds = CHR ''0'' \<longrightarrow> ?ds = ''0''"
    using show_nat_no_leading_zero [of "nat \<bar>i\<bar>"] show_nat_zero by (cases "i = 0") auto
  moreover have "int (dec_value ?ds) = \<bar>i\<bar>" by (simp add: dec_value_show_nat)
  moreover have "show_int i = (if i < 0 then CHR ''-'' # ?ds else ?ds)"
    by (simp add: show_int_def abs_if)
  ultimately show ?thesis by blast
qed

subsection \<open>Selection of the latest package version\<close>

text \<open>
  Claim C3. For every non-empty list of versions returned with status 200, the resolver
  answers for one entry of the list, at some index \<open>i\<close>: no entry has a later update
  time, and every entry before index \<open>i\<close> has a strictly earlier one (so \<open>i\<close> is the first
  entry carrying the maximum). When that entry has a tag the answer is its first tag.
  Otherwise the answer is \<open>version-id-\<close> followed by the decimal numeral of the entry's
  id: a minus sign when the id is negative, then digits, without a leading zero unless
  the numeral is \<open>0\<close>, whose value is the absolute value of the id.
\<close>

theorem getLatestTagOrDigest_selects_first_latest:
  assumes "versions \<noteq> []"
  shows "\<exists>i < length versions.
           (\<forall>j < length versions. UpdatedAt (versions ! j) \<le> UpdatedAt (versions ! i)) \<and>
           (\<forall>j < i. UpdatedAt (versions ! j) < UpdatedAt (versions ! i)) \<and>
           (if Tags (versions ! i) \<noteq> []
            then getLatestTagOrDigest config (Response 200 message (Some versions)) =
                   Inr (hd (Tags (versions ! i)))
            else \<exists>ds. ds \<noteq> [] \<and> list_all is_digit ds \<and> (hd ds = CHR ''0'' \<longrightarrow> ds = ''0'') \<and>
                   int (dec_value ds) = \<bar>sint (ID (versions ! i))\<bar> \<and>
                   getLatestTagOrDigest config (Response 200 message (Some versions)) =
                     Inr (''version-id-'' @
                          (if sint (ID (versions ! i)) < 0 then CHR ''-'' # ds else ds)))"
proof -
  from assms obtain v0 rest where vs: "versions = v0 # rest" by (cases versions) auto
  define sel where "sel = scan_latest v0 versions"
  have res: "getLatestTagOrDigest config (Response 200 message (Some versions)) =
      Inr (if Tags sel \<noteq> [] then hd (Tags sel) else ''version-id-'' @ show_int (sint (ID sel)))"
    by (simp add: getLatestTagOrDigest_def vs sel_def Let_def hd_conv_nth)
  have "\<exists>i < length versions. sel = versions ! i \<and>
           (\<forall>j < length versions. UpdatedAt (versions ! j) \<le> UpdatedAt (versions ! i)) \<and>
           (\<forall>j < i. UpdatedAt (versions ! j) < UpdatedAt (versions ! i))"
    using scan_latest_cases [of v0 versions]
  proof (elim disjE conjE exE)
    assume "scan_latest v0 versions = v0" and "\<forall>v \<in> set versions. UpdatedAt v \<le> UpdatedAt v0"
    then have "sel = versions ! 0"
      and "\<forall>j < length versions. UpdatedAt (versions ! j) \<le> UpdatedAt (versions ! 0)"
      by (simp_all add: sel_def vs nth_Cons split: nat.splits)
    then show ?thesis using vs by (intro exI [of _ 0]) simp
  next
    fix i
    assume "i < length versions" "scan_latest v0 versions = versions ! i"
      "\<forall>j < length versions. UpdatedAt (versions ! j) \<le> UpdatedAt (versions ! i)"
      "\<forall>j < i. UpdatedAt (versions ! j) < UpdatedAt (versions ! i)"
    then show ?thesis by (intro exI [of _ i]) (simp add: sel_def)
  qed
  then obtain i where i: "i < length versions" "sel = versions ! i"
    "\<forall>j < length versions. UpdatedAt (versions ! j) \<le> UpdatedAt (versions ! i)"
    "\<forall>j < i. UpdatedAt (versions ! j) < UpdatedAt (versions ! i)"
    by blast
  from show_int_decimal [of "sint (ID sel)"] obtain ds where
    ds: "ds \<noteq> []" "list_all is_digit ds" "hd ds = CHR ''0'' \<longrightarrow> ds = ''0''"
      "int (dec_value ds) = \<bar>sint (ID sel)\<bar>"
      "show_int (sint (ID sel)) = (if sint (ID sel) < 0 then CHR ''-'' # ds else ds)"
    by blast
  show ?thesis
  proof (intro exI [of _ i] conjI)
    show "i < length versions" by (rule i(1))
    show "\<forall>j < length versions. UpdatedAt (versions ! j) \<le> UpdatedAt (versions ! i)" by (rule i(3))
    show "\<forall>j < i. UpdatedAt (versions ! j) < UpdatedAt (versions ! i)" by (rule i(4))
    show "if Tags (versions ! i) \<noteq> []
          then getLatestTagOrDigest config (Response 200 message (Some versions)) =
                 Inr (hd (Tags (versions ! i)))
          else \<exists>ds. ds \<noteq> [] \<and> list_all is_digit ds \<and> (hd ds = CHR ''0'' \<longrightarrow> ds = ''0'') \<and>
                 int (dec_value ds) = \<bar>sint (ID (versions ! i))\<bar> \<and>
                 getLatestTagOrDigest config (Response 200 message (Some versions)) =
                   Inr (''version-id-'' @
                        (if sint (ID (versions ! i)) < 0 then CHR ''-'' # ds else ds))"
    proof (cases "Tags (versions ! i) \<noteq> []")
      case True
      then show ?thesis using res i(2) by simp
    next
      case False
      have "getLatestTagOrDigest config (Response 200 message (Some versions)) =
          Inr (''version-id-'' @ (if sint (ID (versions ! i)) < 0 then CHR ''-'' # ds else ds))"
        using res False i(2) ds(5) by simp
      with ds(1-4) i(2) False show ?thesis by auto
    qed
  qed
qed

theorem getLatestTagOrDigest_selects_first_latest_witness:
  "demo_versions \<noteq> [] \<and>
   getLatestTagOrDigest demo_config (Response 200 [] (Some demo_versions)) = Inr ''v1.2.0'' \<and>
   getLatestTagOrDigest demo_config (Response 200 []
       (Some [\<lparr>ID = 11, UpdatedAt = 100, Tags = [''v1.0.0'']\<rparr>,
              \<lparr>ID = 13, UpdatedAt = 300, Tags = []\<rparr>,
              \<lparr>ID = 14, UpdatedAt = 300, Tags = []\<rparr>])) = Inr ''version-id-13'' \<and>
   getLatestTagOrDigest demo_config (Response 200 []
       (Some [\<lparr>ID = - 7, UpdatedAt = 5, Tags = []\<rparr>])) = Inr ''version-id--7'' \<and>
   (\<exists>i < length demo_versions.
      (\<forall>j < length demo_versions. UpdatedAt (demo_versions ! j) \<le> UpdatedAt (demo_versions ! i)) \<and>
      (\<forall>j < i. UpdatedAt (demo_versions ! j) < UpdatedAt (demo_versions ! i)) \<and>
      (if Tags (demo_versions ! i) \<noteq> []
       then getLatestTagOrDigest demo_config (Response 200 [] (Some demo_versions)) =
              Inr (hd (Tags (demo_versions ! i)))
       else \<exists>ds. ds \<noteq> [] \<and> list_all is_digit ds \<and> (hd ds = CHR ''0'' \<longrightarrow> ds = ''0'') \<and>
              int (dec_value ds) = \<bar>sint (ID (demo_versions ! i))\<bar> \<and>
              getLatestTagOrDigest demo_config (Response 200 [] (Some demo_versions)) =
                Inr (''version-id-'' @
                     (if sint (ID (demo_versions ! i)) < 0 then CHR ''-'' # ds else ds))))"
proof -
  have ne: "demo_versions \<noteq> []" by (simp add: demo_versions_def)
  have a: "getLatestTagOrDigest demo_config (Response 200 [] (Some demo_versions)) = Inr ''v1.2.0''"
    by (simp add: getLatestTagOrDigest_def demo_versions_def After_def)
  have b: "getLatestTagOrDigest demo_config (Response 200 []
       (Some [\<lparr>ID = 11, UpdatedAt = 100, Tags = [''v1.0.0'']\<rparr>,
              \<lparr>ID = 13, UpdatedAt = 300, Tags = []\<rparr>,
              \<lparr>ID = 14, UpdatedAt = 300, Tags = []\<rparr>])) = Inr ''version-id-13''"
    by (simp add: getLatestTagOrDigest_def After_def show_int_def show_nat.simps digit_char_def
        char_of_eq_iff)
  have c: "getLatestTagOrDigest demo_config (Response 200 []
       (Some [\<lparr>ID = - 7, UpdatedAt = 5, Tags = []\<rparr>])) = Inr ''version-id--7''"
    by (simp add: getLatestTagOrDigest_def After_def show_int_def show_nat.simps digit_char_def
        char_of_eq_iff)
  from getLatestTagOrDigest_selects_first_latest [OF ne, of demo_config "[]"] ne a b c
  show ?thesis by blast
qed

subsection \<open>Direct-reference mode\<close>

lemma reference_tag_tagged:
  assumes "CHR '':'' \<notin> set tag" and "CHR ''/'' \<notin> set tag"
  shows "reference_tag (name @ CHR '':'' # tag) = Some tag"
proof -
  have "count_list (name @ CHR '':'' # tag) CHR '':'' \<ge> 1" by simp
  then have "\<not> length (split_on CHR '':'' (name @ CHR '':'' # tag)) < 2"
    by (simp add: length_split_on)
  then show ?thesis using assms by (simp add: reference_tag_def last_split_on_append)
qed

text \<open>
  Claim C5, at a reference with a registry port and no tag: the reference
  \<open>registry.example.com:5000/repo/image\<close> carries no tag, and it is not rejected; the
  text after the colon of the port is returned as the version.
\<close>

theorem artifactoryTag_port_without_tag:
  "reference_tag ''registry.example.com:5000/repo/image'' = None \<and>
   artifactoryTag (demo_config\<lparr>Provider := ''artifactory'',
       ImageBase := ''registry.example.com:5000/repo/image''\<rparr>) = Inr ''5000/repo/image''"
  by (simp add: artifactoryTag_def reference_tag_def)

subsection \<open>White space and \<open>TrimSpace\<close>\<close>

lemma space_width_le: "space_width s \<le> length s"
  by (induction s rule: space_width.induct) auto

lemma space_width_rev_le: "space_width_rev s \<le> length s"
  by (induction s rule: space_width_rev.induct) auto

lemma space2_fst: "space2 a b \<Longrightarrow> ascii_space a = False"
  by (auto simp: space2_def ascii_space_def)

lemma space2_snd: "space2 a b \<Longrightarrow> ascii_space b = False"
  by (auto simp: space2_def ascii_space_def)

lemma space3_fst: "space3 a b c \<Longrightarrow> ascii_space a = False"
  by (auto simp: space3_def ascii_space_def)

lemma space3_fst2: "space3 a b c \<Longrightarrow> space2 a b' = False"
  by (auto simp: space3_def space2_def)

lemma space3_snd2: "space3 a b c \<Longrightarrow> space2 b c = False"
  by (auto simp: space3_def space2_def)

lemma space3_thd: "space3 a b c \<Longrightarrow> ascii_space c = False"
  by (auto simp: space3_def ascii_space_def)

lemmas space_bytes = space2_fst space2_snd space3_fst space3_fst2 space3_snd2 space3_thd

lemma is_space_rune_cases:
  "is_space_rune r \<longleftrightarrow>
     (\<exists>a. r = [a] \<and> ascii_space a) \<or> (\<exists>a b. r = [a, b] \<and> space2 a b) \<or>
     (\<exists>a b c. r = [a, b, c] \<and> space3 a b c)"
  by (cases r rule: space_width.cases) (auto simp: is_space_rune_def space_bytes)

lemma space_width_rev_rune:
  "is_space_rune r \<Longrightarrow> space_width_rev (rev r @ s) = length r"
  by (cases s rule: space_width_rev.cases) (auto simp: is_space_rune_cases space_bytes)

lemma space_width_rune:
  "is_space_rune r \<Longrightarrow> space_width (r @ s) = length r"
  by (cases s rule: space_width.cases) (auto simp: is_space_rune_cases space_bytes)

lemma space_start_snd2: "space_start b \<Longrightarrow> space2 a b = False"
  by (auto simp: space_start_def space2_def ascii_space_def)

lemma space_start_snd3: "space_start b \<Longrightarrow> space3 a b c = False"
  by (auto simp: space_start_def space3_def ascii_space_def)

lemma space_start_thd3: "space_start c \<Longrightarrow> space3 a b c = False"
  by (auto simp: space_start_def space3_def ascii_space_def)

lemma space_rune_start: "is_space_rune r \<Longrightarrow> space_start (hd r)"
  by (auto simp: is_space_rune_cases space_start_def space2_def space3_def)

lemma space_width_boundary:
  assumes "space_width v = 0" and "v \<noteq> []" and "t = [] \<or> space_start (hd t)"
  shows "space_width (v @ t) = 0"
  using assms
  by (cases v rule: space_width.cases; cases t rule: space_width.cases)
     (auto simp: space_start_snd2 space_start_snd3 space_start_thd3 split: if_splits)

lemma concat_runes_start:
  "\<forall>r \<in> set rs. is_space_rune r \<Longrightarrow> concat rs = [] \<or> space_start (hd (concat rs))"
proof (induction rs)
  case Nil
  then show ?case by simp
next
  case (Cons r rs)
  then have "is_space_rune r" by simp
  then have "r \<noteq> []" "space_start (hd r)"
    by (simp_all add: is_space_rune_def space_rune_start)
  then show ?case by simp
qed

lemma trim_left_runes:
  "\<forall>r \<in> set rs. is_space_rune r \<Longrightarrow> trim_left (concat rs @ s) = trim_left s"
proof (induction rs)
  case Nil
  then show ?case by simp
next
  case (Cons r rs)
  then have r: "is_space_rune r" by simp
  then have w: "space_width (r @ concat rs @ s) = length r" and ne: "r \<noteq> []"
    by (simp_all add: space_width_rune is_space_rune_def)
  have "trim_left (concat (r # rs) @ s) = trim_left (drop (length r) (r @ concat rs @ s))"
    using w ne by (subst trim_left.simps) simp
  with Cons show ?case by simp
qed

lemma trim_left_rev_runes:
  "\<forall>r \<in> set rs. is_space_rune r \<Longrightarrow> trim_left_rev (rev (concat rs) @ s) = trim_left_rev s"
proof (induction rs arbitrary: s)
  case Nil
  then show ?case by simp
next
  case (Cons r rs)
  then have r: "is_space_rune r" by simp
  then have w: "space_width_rev (rev r @ s) = length r" and ne: "r \<noteq> []"
    by (simp_all add: space_width_rev_rune is_space_rune_def)
  have "trim_left_rev (rev (concat (r # rs)) @ s) = trim_left_rev (rev (concat rs) @ (rev r @ s))"
    by simp
  also have "\<dots> = trim_left_rev (rev r @ s)" using Cons by simp
  also have "\<dots> = trim_left_rev (drop (length r) (rev r @ s))"
    using w ne by (subst trim_left_rev.simps) simp
  finally show ?case by simp
qed

lemma length_trim_left: "length (trim_left s) \<le> length s"
proof (induction s rule: trim_left.induct)
  case (1 s)
  show ?case
  proof (cases "space_width s = 0")
    case True
    then show ?thesis by (simp add: trim_left.simps)
  next
    case False
    with 1 have "length (trim_left (drop (space_width s) s)) \<le> length s - space_width s" by simp
    with False show ?thesis by (subst trim_left.simps) simp
  qed
qed

lemma length_trim_left_rev: "length (trim_left_rev s) \<le> length s"
proof (induction s rule: trim_left_rev.induct)
  case (1 s)
  show ?case
  proof (cases "space_width_rev s = 0")
    case True
    then show ?thesis by (simp add: trim_left_rev.simps)
  next
    case False
    with 1 have "length (trim_left_rev (drop (space_width_rev s) s)) \<le> length s - space_width_rev s"
      by simp
    with False show ?thesis by (subst trim_left_rev.simps) simp
  qed
qed

lemma trim_left_same_length:
  assumes "length (trim_left s) = length s"
  shows "space_width s = 0"
proof (rule ccontr)
  assume n: "space_width s \<noteq> 0"
  then have "trim_left s = trim_left (drop (space_width s) s)" by (subst trim_left.simps) simp
  moreover have "length (trim_left (drop (space_width s) s)) \<le> length s - space_width s"
    using length_trim_left [of "drop (space_width s) s"] by simp
  moreover have "space_width s \<le> length s" by (rule space_width_le)
  ultimately show False using assms n by simp
qed

lemma trim_left_rev_same_length:
  assumes "length (trim_left_rev s) = length s"
  shows "space_width_rev s = 0"
proof (rule ccontr)
  assume n: "space_width_rev s \<noteq> 0"
  then have "trim_left_rev s = trim_left_rev (drop (space_width_rev s) s)"
    by (subst trim_left_rev.simps) simp
  moreover have "length (trim_left_rev (drop (space_width_rev s) s)) \<le> length s - space_width_rev s"
    using length_trim_left_rev [of "drop (space_width_rev s) s"] by simp
  moreover have "space_width_rev s \<le> length s" by (rule space_width_rev_le)
  ultimately show False using assms n by simp
qed

lemma TrimSpace_fixed_widths:
  assumes "TrimSpace v = v"
  shows "space_width v = 0" and "space_width_rev (rev v) = 0"
proof -
  have "rev (trim_left_rev (rev (trim_left v))) = v"
    using assms by (simp add: TrimSpace_def trim_right_def)
  then have "length (rev (trim_left_rev (rev (trim_left v)))) = length v" by (rule arg_cong)
  then have a: "length (trim_left_rev (rev (trim_left v))) = length v" by simp
  have b: "length (trim_left_rev (rev (trim_left v))) \<le> length (trim_left v)"
    using length_trim_left_rev [of "rev (trim_left v)"] by simp
  have c: "length (trim_left v) \<le> length v" by (rule length_trim_left)
  from a b c have eq: "length (trim_left v) = length v" by simp
  then show w: "space_width v = 0" by (rule trim_left_same_length)
  then have "trim_left v = v" by (simp add: trim_left.simps)
  with a have "length (trim_left_rev (rev v)) = length (rev v)" by simp
  then show "space_width_rev (rev v) = 0" by (rule trim_left_rev_same_length)
qed

lemma TrimSpace_surrounded:
  assumes v: "TrimSpace v = v"
    and l: "\<forall>r \<in> set before. is_space_rune r" and r: "\<forall>r \<in> set after. is_space_rune r"
  shows "TrimSpace (concat before @ v @ concat after) = v"
proof (cases "v = []")
  case True
  have "trim_left (concat before @ concat after @ []) = trim_left (concat after @ [])"
    using l by (rule trim_left_runes)
  also have "\<dots> = trim_left []" using r by (rule trim_left_runes)
  finally show ?thesis using True
    by (simp add: TrimSpace_def trim_right_def trim_left.simps trim_left_rev.simps)
next
  case False
  note w = TrimSpace_fixed_widths [OF v]
  have "space_width (v @ concat after) = 0"
    using w(1) False concat_runes_start [OF r] by (rule space_width_boundary)
  then have "trim_left (v @ concat after) = v @ concat after" by (simp add: trim_left.simps)
  moreover have "trim_left (concat before @ v @ concat after) = trim_left (v @ concat after)"
    using l by (rule trim_left_runes)
  ultimately have left: "trim_left (concat before @ v @ concat after) = v @ concat after" by simp
  have "trim_left_rev (rev (concat after) @ rev v) = trim_left_rev (rev v)"
    using r by (rule trim_left_rev_runes)
  also have "\<dots> = rev v" using w(2) by (simp add: trim_left_rev.simps)
  finally show ?thesis using left by (simp add: TrimSpace_def trim_right_def)
qed

subsection \<open>One iteration of the loop\<close>

lemma trim_left_Nil: "trim_left [] = []"
  by (simp add: trim_left.simps)

lemma TrimSpace_Nil: "TrimSpace [] = []"
  by (simp add: TrimSpace_def trim_right_def trim_left.simps trim_left_rev.simps)

lemmas watchLoop_eval =
  watchLoop_def resolveVersion_def getLatestTagOrDigest_def artifactoryTag_def
  demo_env_def demo_config_def demo_versions_def After_def readFileOrEmpty_def
  TrimSpace_def trim_right_def trim_left.simps trim_left_rev.simps sanitizePath_def
  replace_byte_def writeFile_def Let_def ascii_space_def space2_def space3_def





text \<open>
  Claim C8. When the marker file is absent or empty, every non-empty resolved version
  differs from it, and the iteration takes the whole branch of a change: it calls the
  pull step for that version (which labels the manifests it has pulled); when the pull
  returns no error it calls the apply step on the same directory; and when the apply
  returns no error it writes the version to the marker file. An error of the pull or of
  the apply ends the iteration there, with that error. An empty resolved version against
  an absent or empty marker is no change: the iteration returns without error, calls
  nothing and writes nothing.
\<close>

theorem empty_marker_always_changed:
  "(latest \<noteq> [] \<longrightarrow> resolveVersion env config = Latest latest \<longrightarrow>
      readFileOrEmpty files (LastFile config) = [] \<longrightarrow>
      watchLoop env config files =
        (case pullImageToDirFunc env config latest (''/tmp/image-'' @ sanitizePath latest) of
           Some err \<Rightarrow>
             (Some (Wrapped ''pull failed'' err), files,
              [Pulled latest (''/tmp/image-'' @ sanitizePath latest) (Some err)])
         | None \<Rightarrow>
             (case applyManifestsFunc env config (''/tmp/image-'' @ sanitizePath latest) of
                Some err \<Rightarrow>
                  (Some (Wrapped ''apply manifests failed'' err), files,
                   [Pulled latest (''/tmp/image-'' @ sanitizePath latest) None,
                    Applied (''/tmp/image-'' @ sanitizePath latest) (Some err)])
              | None \<Rightarrow>
                  (map_option (Wrapped ''failed to write last file'') (writeFileError env),
                   (case writeFileError env of
                      None \<Rightarrow> files(LastFile config \<mapsto> latest)
                    | Some err \<Rightarrow> files(LastFile config := failedWriteLeaves env)),
                   [Pulled latest (''/tmp/image-'' @ sanitizePath latest) None,
                    Applied (''/tmp/image-'' @ sanitizePath latest) None,
                    Wrote (LastFile config) latest (writeFileError env)])))) \<and>
   (resolveVersion env config = Latest [] \<or> resolveVersion env config = Stop None \<longrightarrow>
      readFileOrEmpty files (LastFile config) = [] \<longrightarrow>
      watchLoop env config files = (None, files, []))"
  by (auto simp: watchLoop_def Let_def TrimSpace_Nil writeFile_def
      split: option.splits prod.splits)

theorem empty_marker_always_changed_witness:
  "''v1.2.0'' \<noteq> [] \<and> resolveVersion demo_env demo_config = Latest ''v1.2.0'' \<and>
   readFileOrEmpty Map.empty (LastFile demo_config) = [] \<and>
   watchLoop demo_env demo_config Map.empty =
     (None, [''/tmp/kyverno-watcher/last_seen'' \<mapsto> ''v1.2.0''],
      [Pulled ''v1.2.0'' ''/tmp/image-v1.2.0'' None, Applied ''/tmp/image-v1.2.0'' None,
       Wrote ''/tmp/kyverno-watcher/last_seen'' ''v1.2.0'' None]) \<and>
   resolveVersion demo_env (demo_config\<lparr>Provider := ''artifactory'', ImageBase := ''registry/path:''\<rparr>)
     = Latest [] \<and>
   watchLoop demo_env (demo_config\<lparr>Provider := ''artifactory'', ImageBase := ''registry/path:''\<rparr>)
     Map.empty = (None, Map.empty, [])"
proof -
  have r1: "resolveVersion demo_env demo_config = Latest ''v1.2.0''"
    by (simp add: watchLoop_eval)
  have m: "readFileOrEmpty Map.empty (LastFile demo_config) = []"
    "readFileOrEmpty Map.empty
       (LastFile (demo_config\<lparr>Provider := ''artifactory'', ImageBase := ''registry/path:''\<rparr>)) = []"
    by (simp_all add: readFileOrEmpty_def)
  have r2: "resolveVersion demo_env
      (demo_config\<lparr>Provider := ''artifactory'', ImageBase := ''registry/path:''\<rparr>) = Latest []"
    by (simp add: watchLoop_eval)
  have p: "pullImageToDirFunc demo_env demo_config ''v1.2.0'' ''/tmp/image-v1.2.0'' = None"
    "applyManifestsFunc demo_env demo_config ''/tmp/image-v1.2.0'' = None"
    "writeFileError demo_env = None"
    "''/tmp/image-'' @ sanitizePath ''v1.2.0'' = ''/tmp/image-v1.2.0''"
    "LastFile demo_config = ''/tmp/kyverno-watcher/last_seen''"
    by (simp_all add: demo_env_def demo_config_def sanitizePath_def replace_byte_def)
  from empty_marker_always_changed
    [where latest = "''v1.2.0''" and env = demo_env and config = demo_config and files = Map.empty]
    r1 m(1) p
  have a: "watchLoop demo_env demo_config Map.empty =
     (None, [''/tmp/kyverno-watcher/last_seen'' \<mapsto> ''v1.2.0''],
      [Pulled ''v1.2.0'' ''/tmp/image-v1.2.0'' None, Applied ''/tmp/image-v1.2.0'' None,
       Wrote ''/tmp/kyverno-watcher/last_seen'' ''v1.2.0'' None])"
    by simp
  from empty_marker_always_changed
    [where latest = "[]" and env = demo_env and files = Map.empty
       and config = "demo_config\<lparr>Provider := ''artifactory'', ImageBase := ''registry/path:''\<rparr>"]
    r2 m(2)
  have b: "watchLoop demo_env
      (demo_config\<lparr>Provider := ''artifactory'', ImageBase := ''registry/path:''\<rparr>) Map.empty
      = (None, Map.empty, [])"
    by simp
  from r1 m(1) a r2 b show ?thesis by simp
qed

text \<open>
  Claim C10, as stated, fails when the resolved version itself ends in white space: in
  direct-reference mode the reference \<open>registry/path:v1 \<close> (with a trailing blank)
  resolves to \<open>v1 \<close>, and a marker holding that version followed by a newline is
  compared as \<open>v1\<close>, so the iteration pulls.
\<close>

theorem marker_whitespace_counterexample:
  "\<not> (\<forall>env config files latest before after.
        resolveVersion env config = Latest latest \<longrightarrow>
        (\<forall>r \<in> set before. is_space_rune r) \<longrightarrow> (\<forall>r \<in> set after. is_space_rune r) \<longrightarrow>
        files (LastFile config) = Some (concat before @ latest @ concat after) \<longrightarrow>
        watchLoop env config files = (None, files, []))"
proof
  let ?config = "demo_config\<lparr>Provider := ''artifactory'', ImageBase := ''registry/path:v1 ''\<rparr>"
  let ?files = "[LastFile ?config \<mapsto> concat [] @ ''v1 '' @ concat [[CHR 0x0A]]]"
  assume "\<forall>env config files latest before after.
        resolveVersion env config = Latest latest \<longrightarrow>
        (\<forall>r \<in> set before. is_space_rune r) \<longrightarrow> (\<forall>r \<in> set after. is_space_rune r) \<longrightarrow>
        files (LastFile config) = Some (concat before @ latest @ concat after) \<longrightarrow>
        watchLoop env config files = (None, files, [])"
  then have "resolveVersion demo_env ?config = Latest ''v1 '' \<longrightarrow>
        (\<forall>r \<in> set []. is_space_rune r) \<longrightarrow> (\<forall>r \<in> set [[CHR 0x0A]]. is_space_rune r) \<longrightarrow>
        ?files (LastFile ?config) = Some (concat [] @ ''v1 '' @ concat [[CHR 0x0A]]) \<longrightarrow>
        watchLoop demo_env ?config ?files = (None, ?files, [])"
    by blast
  moreover have "resolveVersion demo_env ?config = Latest ''v1 ''"
    by (simp add: watchLoop_eval)
  moreover have "\<forall>r \<in> set [[CHR 0x0A]]. is_space_rune r"
    by (simp add: is_space_rune_def ascii_space_def)
  ultimately have "watchLoop demo_env ?config ?files = (None, ?files, [])" by simp
  then show False by (simp add: watchLoop_eval)
qed

text \<open>
  Claim C10, amended. When the resolved version has no leading or trailing white space
  of its own (trimming leaves it as it is), every marker file that holds the version
  with white-space characters before and after it compares as equal: the iteration
  returns without error, calls neither pull nor apply and writes nothing.
\<close>

theorem marker_surrounding_whitespace_no_change:
  assumes "resolveVersion env config = Latest latest"
    and "TrimSpace latest = latest"
    and "\<forall>r \<in> set before. is_space_rune r" and "\<forall>r \<in> set after. is_space_rune r"
    and "files (LastFile config) = Some (concat before @ latest @ concat after)"
  shows "watchLoop env config files = (None, files, [])"
proof -
  have "TrimSpace (concat before @ latest @ concat after) = latest"
    using assms(2,3,4) by (rule TrimSpace_surrounded)
  then show ?thesis
    using assms(1,5) by (simp add: watchLoop_def readFileOrEmpty_def Let_def)
qed

theorem marker_surrounding_whitespace_no_change_witness:
  "resolveVersion demo_env demo_config = Latest ''v1.2.0'' \<and>
   TrimSpace ''v1.2.0'' = ''v1.2.0'' \<and>
   is_space_rune [CHR 0x20] \<and> is_space_rune [CHR 0xC2, CHR 0xA0] \<and> is_space_rune [CHR 0x0A] \<and>
   watchLoop demo_env demo_config
     [LastFile demo_config \<mapsto> [CHR 0x20, CHR 0xC2, CHR 0xA0] @ ''v1.2.0'' @ [CHR 0x0A]] =
     (None, [LastFile demo_config \<mapsto> [CHR 0x20, CHR 0xC2, CHR 0xA0] @ ''v1.2.0'' @ [CHR 0x0A]], [])"
proof -
  let ?files = "[LastFile demo_config \<mapsto>
      concat [[CHR 0x20], [CHR 0xC2, CHR 0xA0]] @ ''v1.2.0'' @ concat [[CHR 0x0A]]]"
  have r: "resolveVersion demo_env demo_config = Latest ''v1.2.0''"
    by (simp add: watchLoop_eval)
  have t: "TrimSpace ''v1.2.0'' = ''v1.2.0''"
    by (simp add: watchLoop_eval)
  have s: "is_space_rune [CHR 0x20]" "is_space_rune [CHR 0xC2, CHR 0xA0]" "is_space_rune [CHR 0x0A]"
    by (simp_all add: is_space_rune_def ascii_space_def space2_def)
  have b: "\<forall>r \<in> set [[CHR 0x20], [CHR 0xC2, CHR 0xA0]]. is_space_rune r"
    and a: "\<forall>r \<in> set [[CHR 0x0A]]. is_space_rune r"
    using s by simp_all
  have f: "?files (LastFile demo_config) =
      Some (concat [[CHR 0x20], [CHR 0xC2, CHR 0xA0]] @ ''v1.2.0'' @ concat [[CHR 0x0A]])"
    by simp
  from marker_surrounding_whitespace_no_change [where files = ?files, OF r t b a f]
  have "watchLoop demo_env demo_config ?files = (None, ?files, [])" .
  with r t s show ?thesis by simp
qed

subsection \<open>The poll interval\<close>

lemmas scan_eval = getEnvAsIntOrDefault_def getEnvFunc_def Sscanf_d_def skip_space.simps scanInt_def
  ParseInt_def is_digit_def digit_val_def dec_value_def ascii_space_def space2_def space3_def Let_def

lemma digit_not_ascii_space: "is_digit c \<Longrightarrow> ascii_space c = False"
  by (auto simp: is_digit_def ascii_space_def)

lemma digit_not_space2: "is_digit c \<Longrightarrow> space2 c b = False"
  by (auto simp: is_digit_def space2_def)

lemma digit_not_space3: "is_digit c \<Longrightarrow> space3 c b d = False"
  by (auto simp: is_digit_def space3_def)

lemma digit_not_space: "is_digit c \<Longrightarrow> space_width (c # cs) = 0"
  by (cases cs rule: space_width.cases)
     (simp_all add: digit_not_ascii_space digit_not_space2 digit_not_space3)

lemma digit_not_special:
  "is_digit c \<Longrightarrow> c \<noteq> CHR 0x0A \<and> c \<noteq> CHR ''+'' \<and> c \<noteq> CHR ''-''"
  by (auto simp: is_digit_def)

lemma skip_space_digit: "is_digit c \<Longrightarrow> skip_space (c # cs) = Inr (c # cs)"
  by (subst skip_space.simps) (simp add: digit_not_space digit_not_special)

lemma takeWhile_digits:
  "list_all is_digit ds \<Longrightarrow> takeWhile is_digit ds = ds"
  by (induction ds) auto

lemma scanInt_digits:
  assumes "ds \<noteq> []" and "list_all is_digit ds"
  shows "scanInt ds = ParseInt ds"
proof -
  from assms obtain c cs where ds: "ds = c # cs" and c: "is_digit c" and cs: "list_all is_digit cs"
    by (cases ds) auto
  show ?thesis using c cs digit_not_special [OF c] by (simp add: scanInt_def ds takeWhile_digits)
qed

lemma scanInt_minus_digits:
  assumes "ds \<noteq> []" and "list_all is_digit ds"
  shows "scanInt (CHR ''-'' # ds) = ParseInt (CHR ''-'' # ds)"
proof -
  from assms obtain c cs where ds: "ds = c # cs" and c: "is_digit c" and cs: "list_all is_digit cs"
    by (cases ds) auto
  show ?thesis using c cs by (simp add: scanInt_def ds takeWhile_digits)
qed

lemma getEnvAsIntOrDefault_unset:
  "environ key = None \<or> environ key = Some [] \<Longrightarrow>
     getEnvAsIntOrDefault environ key defaultValue = defaultValue"
  by (auto simp: getEnvAsIntOrDefault_def getEnvFunc_def)

lemma getEnvAsIntOrDefault_digits:
  assumes "environ key = Some ds" and "ds \<noteq> []" and "list_all is_digit ds"
    and "dec_value ds < 2 ^ 63"
  shows "getEnvAsIntOrDefault environ key defaultValue = int (dec_value ds)"
proof -
  from assms obtain c cs where ds: "ds = c # cs" and c: "is_digit c"
    by (cases ds) auto
  have "Sscanf_d ds = ParseInt ds"
    using scanInt_digits [OF assms(2,3)] skip_space_digit [OF c, of cs]
    by (simp add: Sscanf_d_def ds)
  also have "\<dots> = Inr (int (dec_value ds))"
    using assms(3,4) c digit_not_special [OF c] by (simp add: ParseInt_def ds)
  finally show ?thesis using assms(1,2) by (simp add: getEnvAsIntOrDefault_def getEnvFunc_def)
qed

lemma getEnvAsIntOrDefault_minus_digits:
  assumes "environ key = Some (CHR ''-'' # ds)" and "ds \<noteq> []" and "list_all is_digit ds"
    and "dec_value ds \<le> 2 ^ 63"
  shows "getEnvAsIntOrDefault environ key defaultValue = - int (dec_value ds)"
proof -
  have "skip_space (CHR ''-'' # ds) = Inr (CHR ''-'' # ds)"
    by (subst skip_space.simps, cases ds rule: space_width.cases)
       (simp_all add: ascii_space_def space2_def space3_def)
  then have "Sscanf_d (CHR ''-'' # ds) = ParseInt (CHR ''-'' # ds)"
    using scanInt_minus_digits [OF assms(2,3)] by (simp add: Sscanf_d_def)
  also have "\<dots> = Inr (- int (dec_value ds))"
    using assms(2,3,4) by (simp add: ParseInt_def)
  finally show ?thesis using assms(1) by (simp add: getEnvAsIntOrDefault_def getEnvFunc_def)
qed

lemma getEnvAsIntOrDefault_no_number:
  assumes "environ key = Some (c # cs)"
    and "space_width (c # cs) = 0"
    and "\<not> is_digit c" and "c \<noteq> CHR ''+''" and "c \<noteq> CHR ''-''"
  shows "getEnvAsIntOrDefault environ key defaultValue = defaultValue"
proof -
  have "skip_space (c # cs) =
      (if c = CHR 0x0A then Inl (Err ''unexpected newline'') else Inr (c # cs))"
    using assms(2) by (subst skip_space.simps) simp
  moreover have "\<exists>e. scanInt (c # cs) = Inl e"
    using assms(3-5) by (simp add: scanInt_def)
  ultimately have "\<exists>e. Sscanf_d (c # cs) = Inl e"
    by (auto simp: Sscanf_d_def)
  then show ?thesis using assms(1) by (auto simp: getEnvAsIntOrDefault_def getEnvFunc_def)
qed

lemma getEnvAsIntOrDefault_decimal:
  assumes "environ key = Some (show_int i)" and "- (2 ^ 63) \<le> i" and "i < 2 ^ 63"
  shows "getEnvAsIntOrDefault environ key defaultValue = i"
proof (cases "i < 0")
  case True
  let ?ds = "show_nat (nat (- i))"
  have "environ key = Some (CHR ''-'' # ?ds)" using assms(1) True by (simp add: show_int_def)
  moreover have "?ds \<noteq> []" "list_all is_digit ?ds" using show_nat_digits by simp_all
  moreover have "dec_value ?ds \<le> 2 ^ 63" using assms(2) True by (simp add: dec_value_show_nat nat_le_iff)
  ultimately have "getEnvAsIntOrDefault environ key defaultValue = - int (dec_value ?ds)"
    by (rule getEnvAsIntOrDefault_minus_digits)
  then show ?thesis using True by (simp add: dec_value_show_nat)
next
  case False
  let ?ds = "show_nat (nat i)"
  have "environ key = Some ?ds" using assms(1) False by (simp add: show_int_def)
  moreover have "?ds \<noteq> []" "list_all is_digit ?ds" using show_nat_digits by simp_all
  moreover have "dec_value ?ds < 2 ^ 63" using assms(3) False by (simp add: dec_value_show_nat nat_less_iff)
  ultimately have "getEnvAsIntOrDefault environ key defaultValue = int (dec_value ?ds)"
    by (rule getEnvAsIntOrDefault_digits)
  then show ?thesis using False by (simp add: dec_value_show_nat)
qed

lemma getEnvAsIntOrDefault_numeric:
  assumes "environ key = Some v" and "numeric_string v"
  shows "\<exists>ds. list_all is_digit ds \<and> ds \<noteq> [] \<and>
          (v = ds \<and> (dec_value ds < 2 ^ 63 \<longrightarrow>
                       getEnvAsIntOrDefault environ key defaultValue = int (dec_value ds)) \<or>
           v = CHR ''-'' # ds \<and> (dec_value ds \<le> 2 ^ 63 \<longrightarrow>
                       getEnvAsIntOrDefault environ key defaultValue = - int (dec_value ds)))"
proof (cases v)
  case Nil
  then show ?thesis using assms(2) by (simp add: numeric_string_def)
next
  case (Cons c cs)
  show ?thesis
  proof (cases "c = CHR ''-''")
    case True
    then have ds: "cs \<noteq> []" "list_all is_digit cs" and v: "v = CHR ''-'' # cs"
      using assms(2) Cons by (simp_all add: numeric_string_def)
    have "dec_value cs \<le> 2 ^ 63 \<longrightarrow>
        getEnvAsIntOrDefault environ key defaultValue = - int (dec_value cs)"
      using getEnvAsIntOrDefault_minus_digits
          [where environ = environ and key = key, OF assms(1) [unfolded v] ds] by simp
    with ds v show ?thesis by blast
  next
    case False
    then have ds: "v \<noteq> []" "list_all is_digit v"
      using assms(2) Cons by (simp_all add: numeric_string_def)
    have "dec_value v < 2 ^ 63 \<longrightarrow>
        getEnvAsIntOrDefault environ key defaultValue = int (dec_value v)"
      using getEnvAsIntOrDefault_digits
          [where environ = environ and key = key, OF assms(1) ds] by simp
    with ds show ?thesis by blast
  qed
qed

lemma getEnvAsIntOrDefault_underscore:
  "getEnvAsIntOrDefault [''POLL_INTERVAL'' \<mapsto> ''1_000''] ''POLL_INTERVAL'' 30 = 1"
  by (simp add: scan_eval)

text \<open>
  Claim C9, at the value \<open>5m\<close>: the value is no numeric string, and the interval is not
  the default 30 but 5, because the scan stops at the first byte that is no digit and
  ignores what follows.
\<close>

theorem getEnvAsIntOrDefault_trailing_text:
  "\<not> numeric_string ''5m'' \<and>
   getEnvAsIntOrDefault [''POLL_INTERVAL'' \<mapsto> ''5m''] ''POLL_INTERVAL'' 30 = 5"
  by (simp add: scan_eval numeric_string_def)

subsection \<open>The apply step\<close>

lemmas apply_eval = applyManifestsReal_def findYAMLFiles_def is_yaml_def Ext_def ToLower_def
  lower_byte_def Join_def Clean_def clean_elems_def demo_tree_def demo_kubectl_def Let_def
  char_of_eq_iff

lemma walk_readable:
  "readable tree \<Longrightarrow> walk path tree files = (files @ filter is_yaml (all_files path tree), None)"
  "readable_entries entries \<Longrightarrow>
     walk_entries path entries files = (files @ filter is_yaml (all_files_entries path entries), None)"
  by (induction path tree files and path entries files rule: walk_walk_entries.induct) auto

lemma commands_apply_files:
  "commands (apply_files kubectl files) = map (\<lambda>file. ''kubectl apply -f '' @ file) files"
  by (induction files) (auto simp: Let_def)

lemma ran_apply_files:
  "Ran cmd code \<in> set (apply_files kubectl files) \<Longrightarrow> code = kubectl cmd"
  by (induction files) (auto simp: Let_def split: if_splits)

text \<open>
  Claim C4. When the walk of the directory succeeds, the apply step returns no error
  and has run exactly one \<open>kubectl apply -f\<close> command for each file found, in the order
  found, whatever exit status the commands return (each status is only recorded); with
  no file found it runs nothing. When the walk fails, the apply step returns the error
  of the walk and runs nothing; so it returns an error exactly when the enumeration
  fails. In a directory where everything can be read the files found are the files with
  extension \<open>.yaml\<close> or \<open>.yml\<close> in any case.
\<close>

theorem applyManifestsReal_best_effort:
  "(case findYAMLFiles dir tree of
      (files, None) \<Rightarrow>
        (\<exists>evs. applyManifestsReal kubectl dir tree = (None, evs) \<and>
           commands evs = map (\<lambda>file. ''kubectl apply -f '' @ file) files \<and>
           (\<forall>cmd code. Ran cmd code \<in> set evs \<longrightarrow> code = kubectl cmd) \<and>
           (files = [] \<longrightarrow> evs = []))
    | (files, Some err) \<Rightarrow> applyManifestsReal kubectl dir tree = (Some err, [])) \<and>
   fst (applyManifestsReal kubectl dir tree) = snd (findYAMLFiles dir tree) \<and>
   (readable tree \<longrightarrow> findYAMLFiles dir tree = (filter is_yaml (all_files dir tree), None))"
proof -
  obtain files r where f: "findYAMLFiles dir tree = (files, r)" by (cases "findYAMLFiles dir tree")
  have a: "fst (applyManifestsReal kubectl dir tree) = snd (findYAMLFiles dir tree)"
    by (cases r) (simp_all add: applyManifestsReal_def f)
  have b: "readable tree \<longrightarrow> findYAMLFiles dir tree = (filter is_yaml (all_files dir tree), None)"
    by (simp add: findYAMLFiles_def walk_readable)
  show ?thesis
  proof (cases r)
    case None
    have "applyManifestsReal kubectl dir tree = (None, apply_files kubectl files)"
      by (cases files) (simp_all add: applyManifestsReal_def f None)
    moreover have "files = [] \<longrightarrow> apply_files kubectl files = []" by simp
    ultimately show ?thesis using a b f None
      by (simp add: commands_apply_files) (blast dest: ran_apply_files)
  next
    case (Some err)
    then show ?thesis using a b f by (simp add: applyManifestsReal_def)
  qed
qed

theorem applyManifestsReal_best_effort_witness:
  "readable demo_tree \<and>
   findYAMLFiles ''/tmp/image-v1'' demo_tree =
     ([''/tmp/image-v1/a.yaml'', ''/tmp/image-v1/b.YML'', ''/tmp/image-v1/sub/c.yaml''], None) \<and>
   applyManifestsReal demo_kubectl ''/tmp/image-v1'' demo_tree =
     (None, [Ran ''kubectl apply -f /tmp/image-v1/a.yaml'' 1,
             LoggedFailure ''/tmp/image-v1/a.yaml'' 1,
             Ran ''kubectl apply -f /tmp/image-v1/b.YML'' 0,
             Ran ''kubectl apply -f /tmp/image-v1/sub/c.yaml'' 0]) \<and>
   findYAMLFiles ''/tmp/image-v1'' (Dir [(''a.yaml'', File), (''sub'', UnreadableDir)]) =
     ([''/tmp/image-v1/a.yaml''], Some (Err ''readdir'')) \<and>
   applyManifestsReal demo_kubectl ''/tmp/image-v1'' (Dir [(''a.yaml'', File), (''sub'', UnreadableDir)]) =
     (Some (Err ''readdir''), [])"
proof -
  have r: "readable demo_tree" by (simp add: demo_tree_def)
  have f: "findYAMLFiles ''/tmp/image-v1'' demo_tree =
     ([''/tmp/image-v1/a.yaml'', ''/tmp/image-v1/b.YML'', ''/tmp/image-v1/sub/c.yaml''], None)"
    by (simp add: apply_eval)
  have run: "applyManifestsReal demo_kubectl ''/tmp/image-v1'' demo_tree =
     (None, [Ran ''kubectl apply -f /tmp/image-v1/a.yaml'' 1,
             LoggedFailure ''/tmp/image-v1/a.yaml'' 1,
             Ran ''kubectl apply -f /tmp/image-v1/b.YML'' 0,
             Ran ''kubectl apply -f /tmp/image-v1/sub/c.yaml'' 0])"
    by (simp add: apply_eval)
  have g: "findYAMLFiles ''/tmp/image-v1'' (Dir [(''a.yaml'', File), (''sub'', UnreadableDir)]) =
     ([''/tmp/image-v1/a.yaml''], Some (Err ''readdir''))"
    by (simp add: apply_eval)
  from applyManifestsReal_best_effort
    [where dir = "''/tmp/image-v1''" and kubectl = demo_kubectl
       and tree = "Dir [(''a.yaml'', File), (''sub'', UnreadableDir)]"] g
  have bad: "applyManifestsReal demo_kubectl ''/tmp/image-v1''
      (Dir [(''a.yaml'', File), (''sub'', UnreadableDir)]) = (Some (Err ''readdir''), [])"
    by simp
  from r f run g bad show ?thesis by simp
qed

subsection \<open>The destination directory before a pull\<close>




subsection \<open>Annotation\<close>

lemmas yaml_eval = addLabelsToYAML_def setLabels_def Unmarshal_def decode_fields_manifest_def decode_metadata_def
  decode_fields_metadata_def decode_spec_def decode_labels_def decode_string_def Marshal_def
  encode_metadata_def is_empty_map_def the_map_def Let_def

lemma setLabels_labels:
  "setLabels m tag =
     m\<lparr>Metadata := (Metadata m)\<lparr>Labels :=
          Some ((the_map (Labels (Metadata m)))
                  (''managed-by'' \<mapsto> ''kyverno-watcher'', ''policy-version'' \<mapsto> tag))\<rparr>\<rparr>"
  by (simp add: setLabels_def the_map_def Let_def)

lemma addLabelsToYAML_annotated:
  "Unmarshal doc = Inr m \<Longrightarrow> addLabelsToYAML doc tag = Inr (Marshal (setLabels m tag))"
  by (simp add: addLabelsToYAML_def)

lemma addLabelsToYAML_accepts:
  "(\<exists>out. addLabelsToYAML doc tag = Inr out) \<longleftrightarrow> (\<exists>m. Unmarshal doc = Inr m)"
  by (auto simp: addLabelsToYAML_def split: sum.splits)

lemma decode_labels_encoded:
  "decode_labels (Some (JObj (map_option JStr \<circ> l))) = Inr (Some l)"
proof -
  have "map_option label_value \<circ> (map_option JStr \<circ> l) = l"
    by (rule ext) (simp add: option.map_comp comp_def option.map_ident)
  moreover have "\<forall>k. case (map_option JStr \<circ> l) k of None \<Rightarrow> True | Some x \<Rightarrow> str_or_null x"
    by (simp split: option.splits)
  ultimately show ?thesis by (simp add: decode_labels_def)
qed

lemma Unmarshal_Marshal:
  assumes "Labels (Metadata m) = Some l" and "l \<noteq> Map.empty"
  shows "Unmarshal (Marshal m) = Inr (m\<lparr>Spec := (if is_empty_map (Spec m) then None else Spec m)\<rparr>)"
proof -
  have md: "decode_metadata (Some (encode_metadata (Metadata m))) = Inr (Metadata m)"
    using assms decode_labels_encoded [of l]
    by (simp add: decode_metadata_def decode_fields_metadata_def encode_metadata_def
        decode_string_def is_empty_map_def the_map_def)
  have sp: "decode_spec (if is_empty_map (Spec m) then None else Some (JObj (the_map (Spec m)))) =
      Inr (if is_empty_map (Spec m) then None else Spec m)"
    by (auto simp: decode_spec_def is_empty_map_def the_map_def split: option.splits)
  show ?thesis
    using md sp by (simp add: Unmarshal_def Marshal_def decode_fields_manifest_def decode_string_def)
qed

lemma annotated_reparse:
  "Unmarshal (Marshal (setLabels m tag)) =
     Inr ((setLabels m tag)\<lparr>Spec := (if is_empty_map (Spec m) then None else Spec m)\<rparr>)"
proof -
  let ?l = "(the_map (Labels (Metadata m)))(''managed-by'' \<mapsto> ''kyverno-watcher'', ''policy-version'' \<mapsto> tag)"
  have "Labels (Metadata (setLabels m tag)) = Some ?l" by (simp add: setLabels_labels)
  moreover have "?l \<noteq> Map.empty" by simp
  ultimately have "Unmarshal (Marshal (setLabels m tag)) =
      Inr ((setLabels m tag)\<lparr>Spec := (if is_empty_map (Spec (setLabels m tag)) then None
                                       else Spec (setLabels m tag))\<rparr>)"
    by (rule Unmarshal_Marshal)
  then show ?thesis by (simp add: setLabels_labels)
qed

lemma Marshal_spec_normal:
  "Marshal (m\<lparr>Spec := (if is_empty_map (Spec m) then None else Spec m)\<rparr>) = Marshal m"
  by (simp add: Marshal_def is_empty_map_def)

lemma annotated_twice:
  "setLabels ((setLabels m tag)\<lparr>Spec := s\<rparr>) tag = (setLabels m tag)\<lparr>Spec := s\<rparr>"
  by (simp add: setLabels_labels the_map_def)

lemma setLabels_spec: "Spec (setLabels m tag) = Spec m"
  by (simp add: setLabels_labels)

lemma Marshal_keys:
  "\<exists>g h. Marshal m = JObj g \<and> dom g \<subseteq> {''apiVersion'', ''kind'', ''metadata'', ''spec''} \<and>
     g ''metadata'' = Some (JObj h) \<and> dom h \<subseteq> {''name'', ''namespace'', ''labels''}"
  by (auto simp: Marshal_def encode_metadata_def dom_def split: if_splits)

text \<open>
  Claim C2, as stated, fails on keys that the \<open>Manifest\<close> struct does not declare: the
  document with a top-level \<open>data\<close> key (a ConfigMap) is accepted, and the annotated
  output has no \<open>data\<close> key.
\<close>

theorem unknown_keys_counterexample:
  "\<not> (\<forall>f tag g k. addLabelsToYAML (JObj f) tag = Inr (JObj g) \<longrightarrow>
         k \<notin> {''apiVersion'', ''kind'', ''metadata'', ''spec''} \<longrightarrow> g k = f k)"
proof
  assume a: "\<forall>f tag g k. addLabelsToYAML (JObj f) tag = Inr (JObj g) \<longrightarrow>
         k \<notin> {''apiVersion'', ''kind'', ''metadata'', ''spec''} \<longrightarrow> g k = f k"
  obtain f where f: "demo_doc = JObj f" "f ''data'' = Some (JObj [''key'' \<mapsto> JStr ''value''])"
    by (simp add: demo_doc_def)
  obtain g where g: "addLabelsToYAML demo_doc ''v2'' = Inr (JObj g)" "g ''data'' = None"
    by (simp add: yaml_eval demo_doc_def)
  have "''data'' \<notin> {''apiVersion'', ''kind'', ''metadata'', ''spec''}" by simp
  with a f(1) g(1) have "g ''data'' = f ''data''" by metis
  with f(2) g(2) show False by simp
qed

text \<open>
  Claim C2, amended. For every document that the annotator accepts, the annotation
  succeeds, and parsing its output again yields the same api-version, kind, metadata
  name and metadata namespace; the label mapping of the input with the two injected
  labels set, so every other pre-existing label is there unchanged; and the same spec
  payload as a mapping (a payload without entries is left out and comes back absent).
  Only the declared fields are written: the output has no key other than
  \<open>apiVersion\<close>, \<open>kind\<close>, \<open>metadata\<close> and \<open>spec\<close>, and its metadata no key other than
  \<open>name\<close>, \<open>namespace\<close> and \<open>labels\<close>, so keys that the struct does not declare are not
  preserved.
\<close>

theorem annotate_roundtrip_declared_fields:
  assumes "Unmarshal doc = Inr m"
  shows "\<exists>out m' g h.
           addLabelsToYAML doc tag = Inr out \<and> Unmarshal out = Inr m' \<and>
           APIVersion m' = APIVersion m \<and> Kind m' = Kind m \<and>
           Name (Metadata m') = Name (Metadata m) \<and>
           Namespace (Metadata m') = Namespace (Metadata m) \<and>
           Labels (Metadata m') =
             Some ((the_map (Labels (Metadata m)))
                     (''managed-by'' \<mapsto> ''kyverno-watcher'', ''policy-version'' \<mapsto> tag)) \<and>
           the_map (Spec m') = the_map (Spec m) \<and>
           out = JObj g \<and> dom g \<subseteq> {''apiVersion'', ''kind'', ''metadata'', ''spec''} \<and>
           g ''metadata'' = Some (JObj h) \<and> dom h \<subseteq> {''name'', ''namespace'', ''labels''}"
proof -
  let ?out = "Marshal (setLabels m tag)"
  let ?m' = "(setLabels m tag)\<lparr>Spec := (if is_empty_map (Spec m) then None else Spec m)\<rparr>"
  have 1: "addLabelsToYAML doc tag = Inr ?out" using assms by (rule addLabelsToYAML_annotated)
  have 2: "Unmarshal ?out = Inr ?m'" by (rule annotated_reparse)
  have 3: "APIVersion ?m' = APIVersion m" "Kind ?m' = Kind m"
    "Name (Metadata ?m') = Name (Metadata m)" "Namespace (Metadata ?m') = Namespace (Metadata m)"
    "Labels (Metadata ?m') =
       Some ((the_map (Labels (Metadata m)))
               (''managed-by'' \<mapsto> ''kyverno-watcher'', ''policy-version'' \<mapsto> tag))"
    by (simp_all add: setLabels_labels)
  have 4: "the_map (Spec ?m') = the_map (Spec m)"
    by (auto simp: the_map_def is_empty_map_def split: option.splits)
  from Marshal_keys [of "setLabels m tag"] obtain g h where
    5: "?out = JObj g" "dom g \<subseteq> {''apiVersion'', ''kind'', ''metadata'', ''spec''}"
       "g ''metadata'' = Some (JObj h)" "dom h \<subseteq> {''name'', ''namespace'', ''labels''}"
    by blast
  from 1 2 3 4 5 show ?thesis by blast
qed

theorem annotate_roundtrip_declared_fields_witness:
  "Unmarshal demo_doc =
     Inr \<lparr>APIVersion = ''v1'', Kind = ''ConfigMap'',
          Metadata = \<lparr>Name = ''test'', Namespace = [], Labels = Some [''app'' \<mapsto> ''x'']\<rparr>,
          Spec = None\<rparr> \<and>
   (\<exists>out m'. addLabelsToYAML demo_doc ''v2'' = Inr out \<and> Unmarshal out = Inr m' \<and>
      APIVersion m' = ''v1'' \<and> Kind m' = ''ConfigMap'' \<and> Name (Metadata m') = ''test'' \<and>
      Namespace (Metadata m') = [] \<and>
      Labels (Metadata m') =
        Some [''app'' \<mapsto> ''x'', ''managed-by'' \<mapsto> ''kyverno-watcher'', ''policy-version'' \<mapsto> ''v2''])"
proof -
  have u: "Unmarshal demo_doc =
     Inr \<lparr>APIVersion = ''v1'', Kind = ''ConfigMap'',
          Metadata = \<lparr>Name = ''test'', Namespace = [], Labels = Some [''app'' \<mapsto> ''x'']\<rparr>,
          Spec = None\<rparr>"
    by (simp add: yaml_eval demo_doc_def fun_eq_iff)
  from annotate_roundtrip_declared_fields [OF u, of "''v2''"] u
  show ?thesis by (auto simp: the_map_def)
qed

text \<open>
  Claim C7. Annotating the output of an annotation again with the same version gives
  the same output, so the label mapping read from it is the same after the second pass
  as after the first. The labels after an annotation are the labels of the input with
  \<open>managed-by\<close> and \<open>policy-version\<close> set, every other label as it was; from the labels
  \<open>{app: x}\<close> and the version \<open>v2\<close> they are exactly
  \<open>{app: x, managed-by: kyverno-watcher, policy-version: v2}\<close>.
\<close>

theorem annotate_idempotent_on_labels:
  assumes "Unmarshal doc = Inr m"
  shows "\<exists>out m1 m2.
           addLabelsToYAML doc tag = Inr out \<and> Unmarshal out = Inr m1 \<and>
           addLabelsToYAML out tag = Inr out \<and> Unmarshal out = Inr m2 \<and>
           Labels (Metadata m2) = Labels (Metadata m1) \<and>
           (\<forall>k. the_map (Labels (Metadata m1)) k =
                (if k = ''managed-by'' then Some ''kyverno-watcher''
                 else if k = ''policy-version'' then Some tag
                 else the_map (Labels (Metadata m)) k)) \<and>
           (Labels (Metadata m) = Some [''app'' \<mapsto> ''x''] \<and> tag = ''v2'' \<longrightarrow>
              Labels (Metadata m1) =
                Some [''app'' \<mapsto> ''x'', ''managed-by'' \<mapsto> ''kyverno-watcher'',
                      ''policy-version'' \<mapsto> ''v2''])"
proof -
  let ?out = "Marshal (setLabels m tag)"
  let ?m1 = "(setLabels m tag)\<lparr>Spec := (if is_empty_map (Spec m) then None else Spec m)\<rparr>"
  have 1: "addLabelsToYAML doc tag = Inr ?out" using assms by (rule addLabelsToYAML_annotated)
  have 2: "Unmarshal ?out = Inr ?m1" by (rule annotated_reparse)
  have "addLabelsToYAML ?out tag = Inr (Marshal (setLabels ?m1 tag))"
    using 2 by (rule addLabelsToYAML_annotated)
  also have "setLabels ?m1 tag = ?m1" by (rule annotated_twice)
  also have "Marshal ?m1 = ?out" by (rule Marshal_spec_normal [of "setLabels m tag", simplified setLabels_spec])
  finally have 3: "addLabelsToYAML ?out tag = Inr ?out" .
  have 4: "\<forall>k. the_map (Labels (Metadata ?m1)) k =
                (if k = ''managed-by'' then Some ''kyverno-watcher''
                 else if k = ''policy-version'' then Some tag
                 else the_map (Labels (Metadata m)) k)"
    by (simp add: setLabels_labels the_map_def)
  have 5: "Labels (Metadata m) = Some [''app'' \<mapsto> ''x''] \<and> tag = ''v2'' \<longrightarrow>
      Labels (Metadata ?m1) =
        Some [''app'' \<mapsto> ''x'', ''managed-by'' \<mapsto> ''kyverno-watcher'', ''policy-version'' \<mapsto> ''v2'']"
    by (simp add: setLabels_labels the_map_def)
  from 1 2 3 4 5 show ?thesis by blast
qed

theorem annotate_idempotent_on_labels_witness:
  "(\<exists>m. Unmarshal demo_doc = Inr m \<and> Labels (Metadata m) = Some [''app'' \<mapsto> ''x'']) \<and>
   (\<exists>out m1. addLabelsToYAML demo_doc ''v2'' = Inr out \<and> addLabelsToYAML out ''v2'' = Inr out \<and>
      Unmarshal out = Inr m1 \<and>
      Labels (Metadata m1) =
        Some [''app'' \<mapsto> ''x'', ''managed-by'' \<mapsto> ''kyverno-watcher'', ''policy-version'' \<mapsto> ''v2''])"
proof -
  have u: "Unmarshal demo_doc =
     Inr \<lparr>APIVersion = ''v1'', Kind = ''ConfigMap'',
          Metadata = \<lparr>Name = ''test'', Namespace = [], Labels = Some [''app'' \<mapsto> ''x'']\<rparr>,
          Spec = None\<rparr>"
    by (simp add: yaml_eval demo_doc_def fun_eq_iff)
  from annotate_idempotent_on_labels [OF u, of "''v2''"] u
  show ?thesis by auto
qed

end
